theory Spec2Isabelle
  imports
    Complex_Main
    "HOL-Library.Multiset"
    "HOL-Library.Char_ord"
    "HOL-Library.List_Lexorder"
    "HOL-Library.Sublist"
begin

section \<open>Data model of the sync graph (state.ts)\<close>

datatype TableMode = Full | Skip

datatype TableResultStatus = Reindexed | Skipped | Failed

datatype RunStatus = Running | Success | PartialSuccess | RunFailed

text \<open>
  \<^verbatim>\<open>ControlCatalogRecord\<close>: the persisted per-table bookkeeping entry. A field of
  type \<^verbatim>\<open>T | null\<close> is a \<open>T option\<close>; numbers that count rows are integers.
\<close>

record ControlCatalogRecord =
  cat_schema :: string
  cat_table :: string
  schema_hash :: string
  table_hash :: string
  row_count :: int
  max_updated_at :: "string option"
  last_success_run_id :: "string option"
  last_success_at :: "string option"
  last_mode :: "TableMode option"
  last_error :: "string option"

record TableSnapshot =
  snap_schema :: string
  snap_table :: string
  rowCount :: int
  maxUpdatedAt :: "string option"
  maxPkLexicographic :: "string option"
  schemaHash :: string
  tableHash :: string

record TablePlan =
  plan_schema :: string
  plan_table :: string
  plan_mode :: TableMode
  plan_reason :: string

record TableRunResult =
  res_schema :: string
  res_table :: string
  res_mode :: TableMode
  status :: TableResultStatus
  rowsUpserted :: int
  error :: "string option"

record RunError =
  err_tableKey :: string
  err_message :: string

record RunSummary =
  tablesTotal :: int
  tablesReindexed :: int
  tablesSkipped :: int
  sum_rowsUpserted :: int
  errors :: "RunError list"

text \<open>The pair \<^verbatim>\<open>{ mode, reason }\<close> returned by the planner.\<close>

record Decision =
  mode :: TableMode
  reason :: string

definition tableKey :: "string \<Rightarrow> string \<Rightarrow> string" where
  "tableKey schema table = schema @ ''.'' @ table"

definition defaultRunSummary :: RunSummary where
  "defaultRunSummary =
     \<lparr>tablesTotal = 0, tablesReindexed = 0, tablesSkipped = 0, sum_rowsUpserted = 0, errors = []\<rparr>"

text \<open>
  JavaScript truthiness of a \<^verbatim>\<open>string | null\<close>: \<^verbatim>\<open>null\<close> and the empty string are
  falsy, every other string is truthy.
\<close>

fun truthy :: "string option \<Rightarrow> bool" where
  "truthy None = False"
| "truthy (Some s) = (s \<noteq> [])"

section \<open>The change planner (graph.ts)\<close>

text \<open>
  \<^verbatim>\<open>getTableModeReason\<close>: an object reference is always truthy, so
  \<^verbatim>\<open>!previousCatalog\<close> holds exactly for \<^verbatim>\<open>null\<close>.
\<close>

definition getTableModeReason ::
  "ControlCatalogRecord option \<Rightarrow> string \<Rightarrow> string \<Rightarrow> Decision" where
  "getTableModeReason previousCatalog schemaHash' tableHash' =
     (case previousCatalog of
        None \<Rightarrow> \<lparr>mode = Full, reason = ''no_previous_catalog''\<rparr>
      | Some prev \<Rightarrow>
          if schema_hash prev \<noteq> schemaHash' then \<lparr>mode = Full, reason = ''schema_hash_changed''\<rparr>
          else if table_hash prev \<noteq> tableHash' then \<lparr>mode = Full, reason = ''table_hash_changed''\<rparr>
          else \<lparr>mode = Skip, reason = ''table_hash_unchanged''\<rparr>)"

definition decideTableMode ::
  "ControlCatalogRecord option \<Rightarrow> string \<Rightarrow> string \<Rightarrow> bool \<Rightarrow> Decision" where
  "decideTableMode previousCatalog schemaHash' tableHash' hasPrimaryKey =
     (if \<not> hasPrimaryKey then \<lparr>mode = Skip, reason = ''skipped_no_pk''\<rparr>
      else getTableModeReason previousCatalog schemaHash' tableHash')"

section \<open>Run status and summary (graph.ts)\<close>

definition computeRunStatus :: "string option \<Rightarrow> TableRunResult list \<Rightarrow> RunStatus" where
  "computeRunStatus fatalError tableResults =
     (if truthy fatalError then RunFailed
      else if list_ex (\<lambda>result. status result = Failed) tableResults then PartialSuccess
      else Success)"

text \<open>
  One iteration of the loop of \<^verbatim>\<open>summarizeRun\<close>. The message of a failed table is
  \<^verbatim>\<open>result.error || "unknown_table_error"\<close>.
\<close>

definition summarizeStep :: "RunSummary \<Rightarrow> TableRunResult \<Rightarrow> RunSummary" where
  "summarizeStep summary result =
     (if status result = Reindexed then
        summary\<lparr>tablesReindexed := tablesReindexed summary + 1,
                sum_rowsUpserted := sum_rowsUpserted summary + rowsUpserted result\<rparr>
      else if status result = Skipped then
        summary\<lparr>tablesSkipped := tablesSkipped summary + 1\<rparr>
      else if status result = Failed then
        summary\<lparr>errors := errors summary @
          [\<lparr>err_tableKey = tableKey (res_schema result) (res_table result),
            err_message = (if truthy (error result) then the (error result)
                           else ''unknown_table_error'')\<rparr>]\<rparr>
      else summary)"

definition summarizeRun :: "TablePlan list \<Rightarrow> TableRunResult list \<Rightarrow> RunSummary" where
  "summarizeRun tablePlans tableResults =
     foldl summarizeStep (defaultRunSummary\<lparr>tablesTotal := int (length tablePlans)\<rparr>) tableResults"

section \<open>Executing the plans (graph.ts)\<close>

text \<open>
  What the handler may throw: an \<^verbatim>\<open>Error\<close> with its message, or any other value,
  kept as its \<^verbatim>\<open>String(...)\<close> rendering.
\<close>

datatype thrown = ErrorObject string | OtherValue string

fun errorMessage :: "thrown \<Rightarrow> string" where
  "errorMessage (ErrorObject message) = message"
| "errorMessage (OtherValue rendering) = rendering"

text \<open>
  The handler \<^verbatim>\<open>onFullTable\<close> is an effectful callback: it takes the state of the
  world \<open>'w\<close> and returns the new one, with either the row count or the thrown value.
  One iteration of the loop pushes one result.
\<close>

type_synonym 'w handler = "TablePlan \<Rightarrow> 'w \<Rightarrow> (thrown + int) \<times> 'w"

definition executeStep ::
  "'w handler \<Rightarrow> TableRunResult list \<times> 'w \<Rightarrow> TablePlan \<Rightarrow> TableRunResult list \<times> 'w" where
  "executeStep onFullTable acc tablePlan =
     (case acc of (tableResults, w) \<Rightarrow>
       if plan_mode tablePlan = Skip then
         (tableResults @
            [\<lparr>res_schema = plan_schema tablePlan, res_table = plan_table tablePlan,
              res_mode = plan_mode tablePlan, status = Skipped, rowsUpserted = 0,
              error = None\<rparr>], w)
       else
         (case onFullTable tablePlan w of
            (Inr n, w') \<Rightarrow>
              (tableResults @
                 [\<lparr>res_schema = plan_schema tablePlan, res_table = plan_table tablePlan,
                   res_mode = plan_mode tablePlan, status = Reindexed, rowsUpserted = n,
                   error = None\<rparr>], w')
          | (Inl e, w') \<Rightarrow>
              (tableResults @
                 [\<lparr>res_schema = plan_schema tablePlan, res_table = plan_table tablePlan,
                   res_mode = plan_mode tablePlan, status = Failed, rowsUpserted = 0,
                   error = Some (errorMessage e)\<rparr>], w')))"

definition executePlansWithHandler ::
  "TablePlan list \<Rightarrow> 'w handler \<Rightarrow> 'w \<Rightarrow> TableRunResult list \<times> 'w" where
  "executePlansWithHandler tablePlans onFullTable w =
     foldl (executeStep onFullTable) ([], w) tablePlans"

section \<open>Finalization of the catalog (graph.ts)\<close>

text \<open>
  \<^verbatim>\<open>x || null\<close> on a \<^verbatim>\<open>string | null | undefined\<close>: a falsy value (null, undefined,
  the empty string) becomes null.
\<close>

definition orNull :: "string option \<Rightarrow> string option" where
  "orNull x = (if truthy x then x else None)"

definition buildCatalogRecord ::
  "TableSnapshot \<Rightarrow> TableRunResult option \<Rightarrow> ControlCatalogRecord option \<Rightarrow> string \<Rightarrow> string
     \<Rightarrow> string option \<Rightarrow> ControlCatalogRecord" where
  "buildCatalogRecord snapshot result existing runId finishedAt fatalError =
     (let failedResult = (case result of None \<Rightarrow> False | Some r \<Rightarrow> status r = Failed);
          tableSucceeded = (\<not> failedResult \<and> \<not> truthy fatalError \<and> result \<noteq> None)
      in \<lparr>cat_schema = snap_schema snapshot,
          cat_table = snap_table snapshot,
          schema_hash = schemaHash snapshot,
          table_hash = tableHash snapshot,
          row_count = rowCount snapshot,
          max_updated_at = maxUpdatedAt snapshot,
          last_success_run_id =
            (if tableSucceeded then Some runId
             else orNull (case existing of None \<Rightarrow> None | Some e \<Rightarrow> last_success_run_id e)),
          last_success_at =
            (if tableSucceeded then Some finishedAt
             else orNull (case existing of None \<Rightarrow> None | Some e \<Rightarrow> last_success_at e)),
          last_mode =
            (case result of
               Some r \<Rightarrow> Some (res_mode r)
             | None \<Rightarrow> (case existing of None \<Rightarrow> None | Some e \<Rightarrow> last_mode e)),
          last_error =
            (case result of
               None \<Rightarrow> fatalError
             | Some r \<Rightarrow> if status r = Failed then error r else fatalError)\<rparr>)"

text \<open>
  The catalog loop of \<^verbatim>\<open>finalizeRun\<close>: the results are indexed by table key (a later
  result replaces an earlier one with the same key, as the \<^verbatim>\<open>Map\<close> constructor does),
  and one record per snapshot is handed to \<^verbatim>\<open>putCatalogRecord\<close>, in snapshot order.
\<close>

definition resultsByTable :: "TableRunResult list \<Rightarrow> string \<Rightarrow> TableRunResult option" where
  "resultsByTable tableResults =
     map_of (rev (map (\<lambda>result. (tableKey (res_schema result) (res_table result), result))
                      tableResults))"

definition finalizeCatalogRecords ::
  "TableSnapshot list \<Rightarrow> TableRunResult list \<Rightarrow> (string \<Rightarrow> ControlCatalogRecord option)
     \<Rightarrow> string \<Rightarrow> string \<Rightarrow> string option \<Rightarrow> ControlCatalogRecord list" where
  "finalizeCatalogRecords tableSnapshots tableResults catalogByTable runId finishedAt fatalError =
     map (\<lambda>snapshot.
            let key = tableKey (snap_schema snapshot) (snap_table snapshot)
            in buildCatalogRecord snapshot (resultsByTable tableResults key) (catalogByTable key)
                 runId finishedAt fatalError)
         tableSnapshots"

section \<open>Tables and columns (state.ts, db/types.ts)\<close>

record ColumnInfo =
  columnName :: string
  dataType :: string
  isNullable :: bool
  columnDefault :: "string option"
  ordinalPosition :: int
  pkPosition :: "int option"

record TableInfo =
  ti_schema :: string
  ti_table :: string
  columns :: "ColumnInfo list"
  pkColumns :: "string list"
  updatedAtColumn :: "string option"

section \<open>Decimal rendering of numbers\<close>

text \<open>
  Template literals and \<^verbatim>\<open>JSON.stringify\<close> render an integer in decimal. Numbers
  are modelled as mathematical integers: counts of rows, chunks and tokens, and ordinal
  positions, stay far below the range where a JavaScript number stops being exact.
\<close>

definition digitChar :: "nat \<Rightarrow> char" where
  "digitChar d = ''0123456789'' ! d"

function stringOfNat :: "nat \<Rightarrow> string" where
  "stringOfNat n = (if n < 10 then [digitChar n] else stringOfNat (n div 10) @ [digitChar (n mod 10)])"
  by pat_completeness auto
termination
  by (relation "measure id") auto

declare stringOfNat.simps [simp del]

definition stringOfInt :: "int \<Rightarrow> string" where
  "stringOfInt i = (if i < 0 then ''-'' @ stringOfNat (nat (- i)) else stringOfNat (nat i))"

section \<open>The work queue of the estimator (thread_pool.ts, in cost_estimator/estimate.ts)\<close>

text \<open>
  A queue item is a whole table or a chunk of a large table; the chunk carries
  \<^verbatim>\<open>chunkId\<close>, \<^verbatim>\<open>offsetStart\<close>, \<^verbatim>\<open>rowLimit\<close> and \<^verbatim>\<open>tableKey\<close>.
\<close>

datatype QueueItem =
    TableItem TableInfo
  | ChunkItem TableInfo string int int string

text \<open>
  \<^verbatim>\<open>Math.ceil(rowCount / chunkSize)\<close> on integers, for a divisor that is not zero
  (the lemma \<open>ceilDiv_ceiling\<close> below relates it to the ceiling of the real quotient).
\<close>

definition ceilDiv :: "int \<Rightarrow> int \<Rightarrow> int" where
  "ceilDiv a b = - ((- a) div b)"

text \<open>
  One iteration of the loop of \<^verbatim>\<open>buildQueue\<close>. A missing row count is 0
  (\<^verbatim>\<open>rowCounts.get(key) ?? 0\<close>); the inner loop pushes the chunks \<open>0 ..< numChunks\<close>,
  none when \<open>numChunks \<le> 0\<close>.
\<close>

definition buildQueueStep ::
  "(string \<Rightarrow> int option) \<Rightarrow> int \<Rightarrow> int \<Rightarrow> QueueItem list \<times> (string \<Rightarrow> int option) \<Rightarrow> TableInfo
     \<Rightarrow> QueueItem list \<times> (string \<Rightarrow> int option)" where
  "buildQueueStep rowCounts largeTableThreshold chunkSize acc tableInfo =
     (case acc of (queue, chunkCounts) \<Rightarrow>
        let key = tableKey (ti_schema tableInfo) (ti_table tableInfo);
            rowCount' = (case rowCounts key of None \<Rightarrow> 0 | Some n \<Rightarrow> n)
        in if rowCount' \<ge> largeTableThreshold \<and> chunkSize > 0 then
             let numChunks = ceilDiv rowCount' chunkSize
             in (queue @
                   map (\<lambda>i. ChunkItem tableInfo (key @ ''#'' @ stringOfNat i)
                                (int i * chunkSize) chunkSize key)
                       [0 ..< nat numChunks],
                 chunkCounts(key \<mapsto> numChunks))
           else (queue @ [TableItem tableInfo], chunkCounts))"

definition buildQueue ::
  "TableInfo list \<Rightarrow> (string \<Rightarrow> int option) \<Rightarrow> int \<Rightarrow> int
     \<Rightarrow> QueueItem list \<times> (string \<Rightarrow> int option)" where
  "buildQueue tables rowCounts largeTableThreshold chunkSize =
     foldl (buildQueueStep rowCounts largeTableThreshold chunkSize) ([], Map.empty) tables"

section \<open>Chunk aggregation in the thread pool (thread_pool.ts, in cost_estimator/estimate.ts)\<close>

record ChunkResult =
  chunk_schema :: string
  chunk_table :: string
  chunkId :: string
  chunk_rowCount :: int
  chunk_tokenCount :: int

record TableTokenEstimate =
  est_schema :: string
  est_table :: string
  est_rowCount :: int
  est_tokenCount :: int

record ChunkAggregator =
  agg_schema :: string
  agg_table :: string
  totalChunks :: int
  received :: "(string \<times> int \<times> int) list"

text \<open>
  \<^verbatim>\<open>Map.prototype.set\<close> on a \<^verbatim>\<open>Map\<close> kept in insertion order: an existing key
  keeps its place and gets the new value, a new key goes to the end.
\<close>

fun mapSet :: "'k \<Rightarrow> 'v \<Rightarrow> ('k \<times> 'v) list \<Rightarrow> ('k \<times> 'v) list" where
  "mapSet k v [] = [(k, v)]"
| "mapSet k v ((k', v') # entries) =
     (if k' = k then (k, v) # entries else (k', v') # mapSet k v entries)"

text \<open>
  The coordinator's state that \<^verbatim>\<open>handleChunkResult\<close> touches: the aggregators by
  table key, the results, and the calls made to the callbacks \<^verbatim>\<open>onTableComplete\<close> and
  \<^verbatim>\<open>onChunkComplete\<close>, in order.
\<close>

record PoolState =
  aggregators :: "string \<Rightarrow> ChunkAggregator option"
  results :: "TableTokenEstimate list"
  tableCompleteCalls :: "TableTokenEstimate list"
  chunkCompleteCalls :: "(string \<times> string \<times> nat \<times> int) list"

definition initialPool :: PoolState where
  "initialPool = \<lparr>aggregators = Map.empty, results = [], tableCompleteCalls = [],
                   chunkCompleteCalls = []\<rparr>"

definition handleChunkResult ::
  "(string \<Rightarrow> int option) \<Rightarrow> PoolState \<Rightarrow> ChunkResult \<Rightarrow> PoolState" where
  "handleChunkResult chunkCounts st data =
     (let key = tableKey (chunk_schema data) (chunk_table data);
          totalChunks' = (case chunkCounts key of None \<Rightarrow> 1 | Some n \<Rightarrow> n);
          agg0 = (case aggregators st key of
                    None \<Rightarrow> \<lparr>agg_schema = chunk_schema data, agg_table = chunk_table data,
                              totalChunks = totalChunks', received = []\<rparr>
                  | Some a \<Rightarrow> a);
          agg = agg0\<lparr>received :=
                  mapSet (chunkId data) (chunk_rowCount data, chunk_tokenCount data) (received agg0)\<rparr>;
          st1 = st\<lparr>aggregators := (aggregators st)(key \<mapsto> agg),
                   chunkCompleteCalls := chunkCompleteCalls st @
                     [(chunk_schema data, chunk_table data, length (received agg), totalChunks')]\<rparr>
      in if int (length (received agg)) = totalChunks agg then
           let totalRows = foldl (\<lambda>total partial. total + fst partial) 0 (map snd (received agg));
               totalTokens = foldl (\<lambda>total partial. total + snd partial) 0 (map snd (received agg));
               aggregated = \<lparr>est_schema = agg_schema agg, est_table = agg_table agg,
                              est_rowCount = totalRows, est_tokenCount = totalTokens\<rparr>
           in st1\<lparr>aggregators := (aggregators st1)(key := None),
                  results := results st1 @ [aggregated],
                  tableCompleteCalls := tableCompleteCalls st1 @ [aggregated]\<rparr>
         else st1)"

text \<open>
  The coordinator handles the chunk results one at a time, in their order of arrival.
  \<open>chunksOf\<close> selects the chunk results of one table, \<open>completionsOf\<close> the calls of
  \<^verbatim>\<open>onTableComplete\<close> for it.
\<close>

definition handleChunkResults ::
  "(string \<Rightarrow> int option) \<Rightarrow> PoolState \<Rightarrow> ChunkResult list \<Rightarrow> PoolState" where
  "handleChunkResults chunkCounts st msgs = foldl (handleChunkResult chunkCounts) st msgs"

definition chunksOf :: "string \<Rightarrow> ChunkResult list \<Rightarrow> ChunkResult list" where
  "chunksOf key msgs = filter (\<lambda>m. tableKey (chunk_schema m) (chunk_table m) = key) msgs"

definition completionsOf :: "string \<Rightarrow> PoolState \<Rightarrow> TableTokenEstimate list" where
  "completionsOf key st =
     filter (\<lambda>e. tableKey (est_schema e) (est_table e) = key) (tableCompleteCalls st)"

section \<open>JavaScript values and canonical JSON (hashing.ts, in db_sync_graph/state.ts)\<close>

text \<open>
  The values a row can hold (\<^verbatim>\<open>unknown\<close> in the source), as far as \<^verbatim>\<open>sortJsonValue\<close>
  and \<^verbatim>\<open>normalizeValue\<close> tell them apart. A \<^verbatim>\<open>Date\<close> is a valid date, given by its
  \<^verbatim>\<open>toISOString()\<close> rendering. An object is the list of its own enumerable properties
  in the order \<^verbatim>\<open>Object.keys\<close> lists them; its keys are distinct. Strings are lists of
  8-bit characters.

  A number is an integer (\<open>JNumber\<close>, written in decimal) or one of the four numbers
  that \<^verbatim>\<open>JSON.stringify\<close> does not write as they are: \<^verbatim>\<open>NaN\<close>, \<^verbatim>\<open>Infinity\<close> and
  \<^verbatim>\<open>-Infinity\<close>, written \<^verbatim>\<open>null\<close>, and \<^verbatim>\<open>-0\<close>, written \<^verbatim>\<open>0\<close>. Fractions, functions
  and symbols are not among the values.
\<close>

datatype specialNumber = NaN | PlusInfinity | MinusInfinity | MinusZero

datatype jsvalue =
    JUndefined
  | JNull
  | JBoolean bool
  | JNumber int
  | JSpecialNumber specialNumber
  | JString string
  | JBigInt int
  | JDate string
  | JArray "jsvalue list"
  | JObject "(string \<times> jsvalue) list"

text \<open>The type \<^verbatim>\<open>JsonValue\<close> of hashing.ts: what \<^verbatim>\<open>sortJsonValue\<close> returns.\<close>

datatype JsonValue =
    JsonNull
  | JsonBoolean bool
  | JsonNumber int
  | JsonSpecialNumber specialNumber
  | JsonString string
  | JsonArray "JsonValue list"
  | JsonObject "(string \<times> JsonValue) list"

text \<open>Property access \<^verbatim>\<open>object[key]\<close>: a missing property reads as \<^verbatim>\<open>undefined\<close>.\<close>

fun getProperty :: "(string \<times> jsvalue) list \<Rightarrow> string \<Rightarrow> jsvalue" where
  "getProperty [] key = JUndefined"
| "getProperty ((k, v) # entries) key = (if k = key then v else getProperty entries key)"

text \<open>
  The order in which a fresh object lists its properties (\<^verbatim>\<open>Object.fromEntries\<close>
  followed by the enumeration of \<^verbatim>\<open>JSON.stringify\<close>): the keys that are array indices
  (canonical decimal numerals below \<open>2\<^sup>3\<^sup>2 - 1\<close>) first, in ascending numeric order, then
  the other keys in insertion order.
\<close>

definition isDigit :: "char \<Rightarrow> bool" where
  "isDigit c = (CHR ''0'' \<le> c \<and> c \<le> CHR ''9'')"

definition natOfDigits :: "string \<Rightarrow> nat" where
  "natOfDigits ds = foldl (\<lambda>n c. 10 * n + (of_char c - 48)) 0 ds"

definition arrayIndex :: "string \<Rightarrow> nat option" where
  "arrayIndex key =
     (if key = [] then None
      else if \<not> list_all isDigit key then None
      else if hd key = CHR ''0'' \<and> key \<noteq> ''0'' then None
      else if natOfDigits key < 4294967295 then Some (natOfDigits key)
      else None)"

definition objectFromEntries :: "(string \<times> JsonValue) list \<Rightarrow> JsonValue" where
  "objectFromEntries entries =
     JsonObject
       (sort_key (\<lambda>entry. the (arrayIndex (fst entry)))
          (filter (\<lambda>entry. arrayIndex (fst entry) \<noteq> None) entries) @
        filter (\<lambda>entry. arrayIndex (fst entry) = None) entries)"

text \<open>
  \<^verbatim>\<open>sortJsonValue\<close>, in the order of its tests: null and undefined, dates, arrays,
  objects (the sorted keys, each with the canonical form of its value), bigints, and the
  remaining primitives unchanged. The default \<^verbatim>\<open>sort()\<close> of an array of strings is by
  code units, the lexicographic order of \<open>string\<close>.
\<close>

lemma size_getProperty:
  "size (getProperty entries key) \<le> size_list (size_prod (\<lambda>_. 0) size) entries"
  by (induction entries) auto

function sortJsonValue :: "jsvalue \<Rightarrow> JsonValue" where
  "sortJsonValue JUndefined = JsonNull"
| "sortJsonValue JNull = JsonNull"
| "sortJsonValue (JDate isoString) = JsonString isoString"
| "sortJsonValue (JArray items) = JsonArray (map sortJsonValue items)"
| "sortJsonValue (JObject entries) =
     objectFromEntries
       (map (\<lambda>key. (key, sortJsonValue (getProperty entries key))) (sort (map fst entries)))"
| "sortJsonValue (JBigInt n) = JsonString (stringOfInt n)"
| "sortJsonValue (JBoolean b) = JsonBoolean b"
| "sortJsonValue (JNumber n) = JsonNumber n"
| "sortJsonValue (JSpecialNumber n) = JsonSpecialNumber n"
| "sortJsonValue (JString s) = JsonString s"
  by pat_completeness auto
termination
  by (relation "measure size") (auto simp: size_getProperty less_Suc_eq_le size_list_estimation')

text \<open>
  \<^verbatim>\<open>JSON.stringify\<close> on a \<^verbatim>\<open>JsonValue\<close>: strings are quoted, with the quote, the
  backslash and the control characters escaped; arrays and objects are written without
  white space; a number that is not finite is written \<^verbatim>\<open>null\<close>, and negative zero
  \<^verbatim>\<open>0\<close>.
\<close>

definition hexDigit :: "nat \<Rightarrow> char" where
  "hexDigit d = ''0123456789abcdef'' ! d"

definition escapeChar :: "char \<Rightarrow> string" where
  "escapeChar c =
     (if c = CHR 0x22 then [CHR 0x5C, CHR 0x22]
      else if c = CHR 0x5C then [CHR 0x5C, CHR 0x5C]
      else if c = CHR 0x08 then [CHR 0x5C, CHR ''b'']
      else if c = CHR 0x0C then [CHR 0x5C, CHR ''f'']
      else if c = CHR 0x0A then [CHR 0x5C, CHR ''n'']
      else if c = CHR 0x0D then [CHR 0x5C, CHR ''r'']
      else if c = CHR 0x09 then [CHR 0x5C, CHR ''t'']
      else if (of_char c :: nat) < 32 then
        [CHR 0x5C, CHR ''u'', CHR ''0'', CHR ''0'', hexDigit (of_char c div 16), hexDigit (of_char c mod 16)]
      else [c])"

definition quoteJsonString :: "string \<Rightarrow> string" where
  "quoteJsonString s = [CHR 0x22] @ concat (map escapeChar s) @ [CHR 0x22]"

fun joinWith :: "string \<Rightarrow> string list \<Rightarrow> string" where
  "joinWith separator [] = []"
| "joinWith separator [x] = x"
| "joinWith separator (x # y # ys) = x @ separator @ joinWith separator (y # ys)"

fun jsonStringify :: "JsonValue \<Rightarrow> string" where
  "jsonStringify JsonNull = ''null''"
| "jsonStringify (JsonBoolean b) = (if b then ''true'' else ''false'')"
| "jsonStringify (JsonNumber n) = stringOfInt n"
| "jsonStringify (JsonSpecialNumber n) = (if n = MinusZero then ''0'' else ''null'')"
| "jsonStringify (JsonString s) = quoteJsonString s"
| "jsonStringify (JsonArray items) = ''['' @ joinWith '','' (map jsonStringify items) @ '']''"
| "jsonStringify (JsonObject entries) =
     ''{'' @ joinWith '',''
              (map (\<lambda>entry. quoteJsonString (fst entry) @ '':'' @ jsonStringify (snd entry)) entries)
       @ ''}''"

definition stableStringify :: "jsvalue \<Rightarrow> string" where
  "stableStringify v = jsonStringify (sortJsonValue v)"

definition canonicalColumn :: "ColumnInfo \<Rightarrow> jsvalue" where
  "canonicalColumn column =
     JObject
       [(''column_name'', JString (columnName column)),
        (''data_type'', JString (dataType column)),
        (''is_nullable'', JBoolean (isNullable column)),
        (''column_default'', (case columnDefault column of None \<Rightarrow> JNull | Some d \<Rightarrow> JString d)),
        (''pk_position'', (case pkPosition column of None \<Rightarrow> JNull | Some p \<Rightarrow> JNumber p))]"

definition canonicalSchema :: "ColumnInfo list \<Rightarrow> jsvalue list" where
  "canonicalSchema columns' = map canonicalColumn (sort_key ordinalPosition columns')"

definition computeSchemaHash :: "(string \<Rightarrow> string) \<Rightarrow> ColumnInfo list \<Rightarrow> string" where
  "computeSchemaHash sha256Hex columns' = sha256Hex (stableStringify (JArray (canonicalSchema columns')))"

definition computeRowHash :: "(string \<Rightarrow> string) \<Rightarrow> (string \<times> jsvalue) list \<Rightarrow> string" where
  "computeRowHash sha256Hex row = sha256Hex (stableStringify (JObject row))"

section \<open>The row transformer (transform.ts)\<close>

datatype TextColumnsMode = Auto | All

definition TEXTUAL_DATA_TYPES :: "string list" where
  "TEXTUAL_DATA_TYPES =
     [''text'', ''character varying'', ''varchar'', ''character'', ''char'', ''citext'',
      ''json'', ''jsonb'', ''uuid'']"

definition lowerChar :: "char \<Rightarrow> char" where
  "lowerChar c =
     (case map_of (zip ''ABCDEFGHIJKLMNOPQRSTUVWXYZ'' ''abcdefghijklmnopqrstuvwxyz'') c of
        None \<Rightarrow> c
      | Some l \<Rightarrow> l)"

text \<open>\<^verbatim>\<open>toLowerCase\<close> on the ASCII letters; the other characters are left as they are.\<close>

definition toLowerCase :: "string \<Rightarrow> string" where
  "toLowerCase s = map lowerChar s"

definition isTextualColumn :: "string \<Rightarrow> bool" where
  "isTextualColumn dataType' =
     (let normalizedDataType = toLowerCase dataType'
      in list_ex (\<lambda>candidate. sublist candidate normalizedDataType) TEXTUAL_DATA_TYPES)"

fun normalizeValue :: "jsvalue \<Rightarrow> string" where
  "normalizeValue JUndefined = []"
| "normalizeValue JNull = []"
| "normalizeValue (JDate isoString) = isoString"
| "normalizeValue (JArray items) = stableStringify (JArray items)"
| "normalizeValue (JObject entries) = stableStringify (JObject entries)"
| "normalizeValue (JString s) = s"
| "normalizeValue (JNumber n) = stringOfInt n"
| "normalizeValue (JSpecialNumber n) =
     (case n of
        NaN \<Rightarrow> ''NaN''
      | PlusInfinity \<Rightarrow> ''Infinity''
      | MinusInfinity \<Rightarrow> ''-Infinity''
      | MinusZero \<Rightarrow> ''0'')"
| "normalizeValue (JBigInt n) = stringOfInt n"
| "normalizeValue (JBoolean b) = (if b then ''true'' else ''false'')"

definition selectPageContentColumns ::
  "TableInfo \<Rightarrow> TextColumnsMode \<Rightarrow> string set \<Rightarrow> string list" where
  "selectPageContentColumns tableInfo textColumnsMode excludedColumns =
     map columnName
       (filter (\<lambda>column. textColumnsMode = All \<or> isTextualColumn (dataType column))
          (filter (\<lambda>column. toLowerCase (columnName column) \<notin> excludedColumns)
             (columns tableInfo)))"

text \<open>The lines of \<^verbatim>\<open>createPageContent\<close>: one per selected column with a non-empty value.\<close>

definition pageContentLines :: "(string \<times> jsvalue) list \<Rightarrow> string list \<Rightarrow> string list" where
  "pageContentLines row selectedColumns =
     filter (\<lambda>line. line \<noteq> [])
       (map (\<lambda>columnName'.
               let normalized = normalizeValue (getProperty row columnName')
               in if normalized \<noteq> [] then columnName' @ '': '' @ normalized else [])
            selectedColumns)"

definition createPageContent ::
  "(string \<times> jsvalue) list \<Rightarrow> TableInfo \<Rightarrow> TextColumnsMode \<Rightarrow> string set \<Rightarrow> string" where
  "createPageContent row tableInfo textColumnsMode excludedColumns =
     (let selectedColumns = selectPageContentColumns tableInfo textColumnsMode excludedColumns;
          lines = pageContentLines row selectedColumns
      in if lines \<noteq> [] then joinWith [CHR 0x0A] lines
         else ''['' @ ti_schema tableInfo @ ''.'' @ ti_table tableInfo @ ''] '' @
              stableStringify (JObject row))"

text \<open>
  \<^verbatim>\<open>extractPrimaryKey\<close>: the loop over the primary-key columns raises for a column
  that is not in the row.
\<close>

fun extractPrimaryKeyLoop ::
  "(string \<times> jsvalue) list \<Rightarrow> TableInfo \<Rightarrow> string list \<Rightarrow> (string \<times> jsvalue) list
     \<Rightarrow> string + (string \<times> jsvalue) list" where
  "extractPrimaryKeyLoop row tableInfo [] primaryKey = Inr primaryKey"
| "extractPrimaryKeyLoop row tableInfo (primaryKeyColumn # rest) primaryKey =
     (if primaryKeyColumn \<notin> fst ` set row then
        Inl (''Missing PK column '' @ primaryKeyColumn @ '' in '' @
             ti_schema tableInfo @ ''.'' @ ti_table tableInfo)
      else extractPrimaryKeyLoop row tableInfo rest
             (mapSet primaryKeyColumn (getProperty row primaryKeyColumn) primaryKey))"

definition extractPrimaryKey ::
  "(string \<times> jsvalue) list \<Rightarrow> TableInfo \<Rightarrow> string + (string \<times> jsvalue) list" where
  "extractPrimaryKey row tableInfo = extractPrimaryKeyLoop row tableInfo (pkColumns tableInfo) []"

definition buildDocId ::
  "(string \<Rightarrow> string) \<Rightarrow> string \<Rightarrow> string \<Rightarrow> (string \<times> jsvalue) list \<Rightarrow> string" where
  "buildDocId sha256Hex schema table primaryKey =
     sha256Hex (schema @ ''.'' @ table @ ''|'' @ stableStringify (JObject primaryKey))"

record DocumentMetadata =
  meta_schema :: string
  meta_table :: string
  meta_pk :: "(string \<times> jsvalue) list"
  meta_pk_hash :: string
  meta_updated_at :: "string option"
  meta_row_hash :: string
  meta_run_id :: string

record DbSyncDocument =
  docId :: string
  pageContent :: string
  metadata :: DocumentMetadata

definition transformRowToDocument ::
  "(string \<Rightarrow> string) \<Rightarrow> (string \<times> jsvalue) list \<Rightarrow> TableInfo \<Rightarrow> string \<Rightarrow> TextColumnsMode
     \<Rightarrow> string list \<Rightarrow> string + DbSyncDocument" where
  "transformRowToDocument sha256Hex row tableInfo runId textColumnsMode excludedColumnsParam =
     (let excludedColumns = set (map toLowerCase excludedColumnsParam)
      in case extractPrimaryKey row tableInfo of
           Inl message \<Rightarrow> Inl message
         | Inr primaryKey \<Rightarrow>
             Inr \<lparr>docId = buildDocId sha256Hex (ti_schema tableInfo) (ti_table tableInfo) primaryKey,
                  pageContent = createPageContent row tableInfo textColumnsMode excludedColumns,
                  metadata =
                    \<lparr>meta_schema = ti_schema tableInfo,
                     meta_table = ti_table tableInfo,
                     meta_pk = primaryKey,
                     meta_pk_hash = sha256Hex (stableStringify (JObject primaryKey)),
                     meta_updated_at =
                       (case updatedAtColumn tableInfo of
                          None \<Rightarrow> None
                        | Some column \<Rightarrow>
                            if column = [] then None
                            else if normalizeValue (getProperty row column) = [] then None
                            else Some (normalizeValue (getProperty row column))),
                     meta_row_hash = computeRowHash sha256Hex row,
                     meta_run_id = runId\<rparr>\<rparr>)"

text \<open>Two nested values are the same up to the order of the object keys, at every level.\<close>

inductive sameUpToKeyOrder :: "jsvalue \<Rightarrow> jsvalue \<Rightarrow> bool" where
  same: "sameUpToKeyOrder v v"
| arrays: "list_all2 sameUpToKeyOrder items items' \<Longrightarrow> sameUpToKeyOrder (JArray items) (JArray items')"
| objects:
    "distinct (map fst entries) \<Longrightarrow> distinct (map fst entries') \<Longrightarrow>
     set (map fst entries) = set (map fst entries') \<Longrightarrow>
     (\<forall>key \<in> set (map fst entries).
        sameUpToKeyOrder (getProperty entries key) (getProperty entries' key)) \<Longrightarrow>
     sameUpToKeyOrder (JObject entries) (JObject entries')"

text \<open>
  No number in a value is \<^verbatim>\<open>NaN\<close>, an infinity or negative zero: on a row value, and
  on a \<^verbatim>\<open>JsonValue\<close>.
\<close>

fun plainNumbers :: "jsvalue \<Rightarrow> bool" where
  "plainNumbers (JSpecialNumber n) = False"
| "plainNumbers (JArray items) = (\<forall>item \<in> set items. plainNumbers item)"
| "plainNumbers (JObject entries) = (\<forall>entry \<in> set entries. plainNumbers (snd entry))"
| "plainNumbers JUndefined = True"
| "plainNumbers JNull = True"
| "plainNumbers (JBoolean b) = True"
| "plainNumbers (JNumber n) = True"
| "plainNumbers (JString s) = True"
| "plainNumbers (JBigInt n) = True"
| "plainNumbers (JDate isoString) = True"

fun plainJsonNumbers :: "JsonValue \<Rightarrow> bool" where
  "plainJsonNumbers (JsonSpecialNumber n) = False"
| "plainJsonNumbers (JsonArray items) = (\<forall>item \<in> set items. plainJsonNumbers item)"
| "plainJsonNumbers (JsonObject entries) = (\<forall>entry \<in> set entries. plainJsonNumbers (snd entry))"
| "plainJsonNumbers JsonNull = True"
| "plainJsonNumbers (JsonBoolean b) = True"
| "plainJsonNumbers (JsonNumber n) = True"
| "plainJsonNumbers (JsonString s) = True"

section \<open>Example inputs\<close>

text \<open>Concrete tables, plans, results and handlers, used to instantiate the theorems below.\<close>

definition exampleCatalog :: ControlCatalogRecord where
  "exampleCatalog =
     \<lparr>cat_schema = ''public'', cat_table = ''users'', schema_hash = ''schema_hash_a'',
      table_hash = ''table_hash_a'', row_count = 10, max_updated_at = None,
      last_success_run_id = Some ''run_1'', last_success_at = Some ''2026-02-10T09:00:00.000Z'',
      last_mode = Some Skip, last_error = None\<rparr>"


definition examplePlans :: "TablePlan list" where
  "examplePlans =
     [\<lparr>plan_schema = ''public'', plan_table = ''users'', plan_mode = Full,
       plan_reason = ''no_previous_catalog''\<rparr>,
      \<lparr>plan_schema = ''public'', plan_table = ''audit'', plan_mode = Skip,
       plan_reason = ''skipped_no_pk''\<rparr>,
      \<lparr>plan_schema = ''public'', plan_table = ''orders'', plan_mode = Full,
       plan_reason = ''no_previous_catalog''\<rparr>,
      \<lparr>plan_schema = ''public'', plan_table = ''users'', plan_mode = Full,
       plan_reason = ''table_hash_changed''\<rparr>]"

definition exampleHandler :: "string list handler" where
  "exampleHandler tablePlan calls =
     (if plan_table tablePlan = ''users'' then (Inr 5, calls @ [plan_table tablePlan])
      else (Inl (ErrorObject ''table failed''), calls @ [plan_table tablePlan]))"

definition exampleResults :: "TableRunResult list" where
  "exampleResults =
     [\<lparr>res_schema = ''public'', res_table = ''users'', res_mode = Full, status = Reindexed,
       rowsUpserted = 5, error = None\<rparr>,
      \<lparr>res_schema = ''public'', res_table = ''orders'', res_mode = Full, status = Failed,
       rowsUpserted = 0, error = Some ''table failed''\<rparr>]"



definition exampleTable :: TableInfo where
  "exampleTable = \<lparr>ti_schema = ''public'', ti_table = ''users'', columns = [], pkColumns = [''id''],
     updatedAtColumn = None\<rparr>"

definition exampleChunkCounts :: "string \<Rightarrow> int option" where
  "exampleChunkCounts = [''public.users'' \<mapsto> 3, ''public.orders'' \<mapsto> 2]"

definition exampleChunks :: "ChunkResult list" where
  "exampleChunks =
     [\<lparr>chunk_schema = ''public'', chunk_table = ''users'', chunkId = ''public.users#2'',
       chunk_rowCount = 5, chunk_tokenCount = 50\<rparr>,
      \<lparr>chunk_schema = ''public'', chunk_table = ''orders'', chunkId = ''public.orders#0'',
       chunk_rowCount = 7, chunk_tokenCount = 70\<rparr>,
      \<lparr>chunk_schema = ''public'', chunk_table = ''users'', chunkId = ''public.users#0'',
       chunk_rowCount = 10, chunk_tokenCount = 120\<rparr>,
      \<lparr>chunk_schema = ''public'', chunk_table = ''users'', chunkId = ''public.users#1'',
       chunk_rowCount = 10, chunk_tokenCount = 90\<rparr>,
      \<lparr>chunk_schema = ''public'', chunk_table = ''orders'', chunkId = ''public.orders#1'',
       chunk_rowCount = 3, chunk_tokenCount = 30\<rparr>]"

definition exampleRow :: "(string \<times> jsvalue) list" where
  "exampleRow = [(''id'', JNumber 1), (''name'', JNull), (''secret'', JString ''token''),
     (''10'', JArray [JBoolean True, JBigInt (-5), JUndefined]), (''9'', JDate ''2026-02-10T10:00:00.000Z'')]"

definition exampleNested :: jsvalue where
  "exampleNested =
     JObject [(''b'', JArray [JObject [(''y'', JNumber 2), (''x'', JNumber 1)], JNull]),
              (''a'', JString ''v'')]"

definition exampleNestedReordered :: jsvalue where
  "exampleNestedReordered =
     JObject [(''a'', JString ''v''),
              (''b'', JArray [JObject [(''x'', JNumber 1), (''y'', JNumber 2)], JNull])]"

definition usersTable :: TableInfo where
  "usersTable =
     \<lparr>ti_schema = ''public'', ti_table = ''users'',
      columns =
        [\<lparr>columnName = ''id'', dataType = ''integer'', isNullable = False, columnDefault = None,
          ordinalPosition = 1, pkPosition = Some 1\<rparr>,
         \<lparr>columnName = ''name'', dataType = ''character varying'', isNullable = False,
          columnDefault = None, ordinalPosition = 2, pkPosition = None\<rparr>,
         \<lparr>columnName = ''secret'', dataType = ''text'', isNullable = True, columnDefault = None,
          ordinalPosition = 3, pkPosition = None\<rparr>],
      pkColumns = [''id''],
      updatedAtColumn = None\<rparr>"

definition leakRow :: "(string \<times> jsvalue) list" where
  "leakRow = [(''id'', JNumber 1), (''name'', JNull), (''secret'', JString ''token'')]"

definition baseColumns :: "ColumnInfo list" where
  "baseColumns =
     [\<lparr>columnName = ''name'', dataType = ''character varying'', isNullable = False,
       columnDefault = None, ordinalPosition = 2, pkPosition = None\<rparr>,
      \<lparr>columnName = ''id'', dataType = ''integer'', isNullable = False, columnDefault = None,
       ordinalPosition = 1, pkPosition = Some 1\<rparr>]"

definition renumberedColumns :: "ColumnInfo list" where
  "renumberedColumns =
     [\<lparr>columnName = ''name'', dataType = ''character varying'', isNullable = False,
       columnDefault = None, ordinalPosition = 7, pkPosition = None\<rparr>,
      \<lparr>columnName = ''id'', dataType = ''integer'', isNullable = False, columnDefault = None,
       ordinalPosition = 3, pkPosition = Some 1\<rparr>]"

definition changedColumn :: ColumnInfo where
  "changedColumn =
     \<lparr>columnName = ''name'', dataType = ''text'', isNullable = False,
      columnDefault = None, ordinalPosition = 2, pkPosition = None\<rparr>"

section \<open>Verified properties of the planner\<close>

text \<open>
  C1. The planner rules apply in strict top-to-bottom precedence, for every input:
  without a primary key the decision is skip/skipped_no_pk whatever the catalog and the
  hashes are; otherwise without a previous catalog record it is full/no_previous_catalog;
  otherwise a differing schema hash gives full/schema_hash_changed, also when the table
  hash matches; otherwise a differing table hash gives full/table_hash_changed; otherwise
  skip/table_hash_unchanged.
\<close>

theorem decideTableMode_precedence:
  "(\<not> pk \<longrightarrow> decideTableMode prev sh th pk = \<lparr>mode = Skip, reason = ''skipped_no_pk''\<rparr>) \<and>
   (pk \<and> prev = None \<longrightarrow>
      decideTableMode prev sh th pk = \<lparr>mode = Full, reason = ''no_previous_catalog''\<rparr>) \<and>
   (pk \<and> prev = Some c \<and> schema_hash c \<noteq> sh \<longrightarrow>
      decideTableMode prev sh th pk = \<lparr>mode = Full, reason = ''schema_hash_changed''\<rparr>) \<and>
   (pk \<and> prev = Some c \<and> schema_hash c = sh \<and> table_hash c \<noteq> th \<longrightarrow>
      decideTableMode prev sh th pk = \<lparr>mode = Full, reason = ''table_hash_changed''\<rparr>) \<and>
   (pk \<and> prev = Some c \<and> schema_hash c = sh \<and> table_hash c = th \<longrightarrow>
      decideTableMode prev sh th pk = \<lparr>mode = Skip, reason = ''table_hash_unchanged''\<rparr>)"
  by (simp add: decideTableMode_def getTableModeReason_def)

theorem decideTableMode_precedence_witness:
  "decideTableMode (Some exampleCatalog) ''schema_hash_b'' ''table_hash_b'' False
     = \<lparr>mode = Skip, reason = ''skipped_no_pk''\<rparr> \<and>
   decideTableMode None ''schema_hash_a'' ''table_hash_a'' True
     = \<lparr>mode = Full, reason = ''no_previous_catalog''\<rparr> \<and>
   decideTableMode (Some exampleCatalog) ''schema_hash_b'' ''table_hash_a'' True
     = \<lparr>mode = Full, reason = ''schema_hash_changed''\<rparr> \<and>
   decideTableMode (Some exampleCatalog) ''schema_hash_a'' ''table_hash_b'' True
     = \<lparr>mode = Full, reason = ''table_hash_changed''\<rparr> \<and>
   decideTableMode (Some exampleCatalog) ''schema_hash_a'' ''table_hash_a'' True
     = \<lparr>mode = Skip, reason = ''table_hash_unchanged''\<rparr>"
  using
    decideTableMode_precedence [of False "Some exampleCatalog" "''schema_hash_b''" "''table_hash_b''" exampleCatalog]
    decideTableMode_precedence [of True None "''schema_hash_a''" "''table_hash_a''" exampleCatalog]
    decideTableMode_precedence [of True "Some exampleCatalog" "''schema_hash_b''" "''table_hash_a''" exampleCatalog]
    decideTableMode_precedence [of True "Some exampleCatalog" "''schema_hash_a''" "''table_hash_b''" exampleCatalog]
    decideTableMode_precedence [of True "Some exampleCatalog" "''schema_hash_a''" "''table_hash_a''" exampleCatalog]
  by (simp add: exampleCatalog_def)

section \<open>Catalog finalization\<close>

lemma finalizeCatalogRecords_nth:
  "i < length tableSnapshots \<Longrightarrow>
   finalizeCatalogRecords tableSnapshots tableResults catalogByTable runId finishedAt fatalError ! i =
     buildCatalogRecord (tableSnapshots ! i)
       (resultsByTable tableResults
          (tableKey (snap_schema (tableSnapshots ! i)) (snap_table (tableSnapshots ! i))))
       (catalogByTable (tableKey (snap_schema (tableSnapshots ! i)) (snap_table (tableSnapshots ! i))))
       runId finishedAt fatalError"
  by (simp add: finalizeCatalogRecords_def Let_def)




section \<open>Execution of the plans\<close>

lemma executePlans_snoc:
  "executePlansWithHandler (ps @ [p]) h w = executeStep h (executePlansWithHandler ps h w) p"
  by (simp add: executePlansWithHandler_def)

lemma executeStep_fst:
  "\<exists>r. fst (executeStep h (rs, w) p) = rs @ [r]"
  by (auto simp: executeStep_def split: prod.splits sum.splits)

lemma executePlans_length:
  "length (fst (executePlansWithHandler ps h w)) = length ps"
proof (induction ps rule: rev_induct)
  case Nil
  show ?case by (simp add: executePlansWithHandler_def)
next
  case (snoc p ps)
  obtain rs w' where e: "executePlansWithHandler ps h w = (rs, w')" by (cases "executePlansWithHandler ps h w")
  obtain r where "fst (executeStep h (rs, w') p) = rs @ [r]" using executeStep_fst[of h rs w' p] by blast
  with snoc e show ?case by (simp add: executePlans_snoc)
qed

lemma executePlans_append_fst:
  "fst (executePlansWithHandler (ps @ qs) h w) =
     fst (executePlansWithHandler ps h w) @
     fst (executePlansWithHandler qs h (snd (executePlansWithHandler ps h w)))"
  and executePlans_append_snd:
  "snd (executePlansWithHandler (ps @ qs) h w) =
     snd (executePlansWithHandler qs h (snd (executePlansWithHandler ps h w)))"
proof (induction qs rule: rev_induct)
  case Nil
  { case 1 show ?case by (simp add: executePlansWithHandler_def) }
  { case 2 show ?case by (simp add: executePlansWithHandler_def) }
next
  case (snoc q qs)
  { case 1
    show ?case using snoc
      apply (simp only: append_assoc[symmetric] executePlans_snoc)
      apply (auto simp: executeStep_def split: prod.splits sum.splits)
      done }
  { case 2
    show ?case using snoc
      apply (simp only: append_assoc[symmetric] executePlans_snoc)
      apply (auto simp: executeStep_def split: prod.splits sum.splits)
      done }
qed


lemma executePlans_nth:
  assumes "i < length ps"
  shows "executePlansWithHandler (take (Suc i) ps) h w =
           executeStep h (executePlansWithHandler (take i ps) h w) (ps ! i)"
    and "fst (executePlansWithHandler ps h w) ! i =
           last (fst (executeStep h (executePlansWithHandler (take i ps) h w) (ps ! i)))"
proof -
  show step: "executePlansWithHandler (take (Suc i) ps) h w =
           executeStep h (executePlansWithHandler (take i ps) h w) (ps ! i)"
    using assms by (simp add: take_Suc_conv_app_nth executePlans_snoc)
  obtain rs w' where e: "executePlansWithHandler (take i ps) h w = (rs, w')"
    by (cases "executePlansWithHandler (take i ps) h w")
  obtain r where r: "fst (executeStep h (rs, w') (ps ! i)) = rs @ [r]"
    using executeStep_fst[of h rs w' "ps ! i"] by blast
  have len: "length rs = i"
    using executePlans_length[of "take i ps" h w] e assms by simp
  have "ps = take (Suc i) ps @ drop (Suc i) ps" by simp
  then have "fst (executePlansWithHandler ps h w) =
      fst (executePlansWithHandler (take (Suc i) ps) h w) @
      fst (executePlansWithHandler (drop (Suc i) ps) h
             (snd (executePlansWithHandler (take (Suc i) ps) h w)))"
    using executePlans_append_fst[of "take (Suc i) ps" "drop (Suc i) ps" h w] by simp
  then have "fst (executePlansWithHandler ps h w) ! i = (rs @ [r]) ! i"
    using step e r len by (simp add: nth_append)
  then show "fst (executePlansWithHandler ps h w) ! i =
           last (fst (executeStep h (executePlansWithHandler (take i ps) h w) (ps ! i)))"
    using e r len by (auto simp: nth_append)
qed

text \<open>
  C5. \<^verbatim>\<open>executePlansWithHandler\<close> returns exactly one result per plan, in plan order
  (same schema, table and mode at every index). A skip plan yields status skipped with
  zero rows and no handler call: the world the handler acts on is the same before and
  after the plan. A full plan yields status reindexed with the handler's row count when
  the handler returns, and status failed with zero rows and the error message when it
  throws. A throw does not stop the loop: the results are those of the plans before
  index \<open>i\<close> followed by those of the remaining plans, run from the world the earlier
  plans left.
\<close>

theorem executePlansWithHandler_results:
  "length (fst (executePlansWithHandler plans h w)) = length plans \<and>
   (i < length plans \<longrightarrow>
      res_schema (fst (executePlansWithHandler plans h w) ! i) = plan_schema (plans ! i) \<and>
      res_table (fst (executePlansWithHandler plans h w) ! i) = plan_table (plans ! i) \<and>
      res_mode (fst (executePlansWithHandler plans h w) ! i) = plan_mode (plans ! i)) \<and>
   (i < length plans \<and> plan_mode (plans ! i) = Skip \<longrightarrow>
      status (fst (executePlansWithHandler plans h w) ! i) = Skipped \<and>
      rowsUpserted (fst (executePlansWithHandler plans h w) ! i) = 0 \<and>
      error (fst (executePlansWithHandler plans h w) ! i) = None \<and>
      snd (executePlansWithHandler (take (Suc i) plans) h w) =
        snd (executePlansWithHandler (take i plans) h w)) \<and>
   (i < length plans \<and> plan_mode (plans ! i) = Full \<and>
    h (plans ! i) (snd (executePlansWithHandler (take i plans) h w)) = (Inr n, w') \<longrightarrow>
      status (fst (executePlansWithHandler plans h w) ! i) = Reindexed \<and>
      rowsUpserted (fst (executePlansWithHandler plans h w) ! i) = n \<and>
      error (fst (executePlansWithHandler plans h w) ! i) = None \<and>
      snd (executePlansWithHandler (take (Suc i) plans) h w) = w') \<and>
   (i < length plans \<and> plan_mode (plans ! i) = Full \<and>
    h (plans ! i) (snd (executePlansWithHandler (take i plans) h w)) = (Inl e, w') \<longrightarrow>
      status (fst (executePlansWithHandler plans h w) ! i) = Failed \<and>
      rowsUpserted (fst (executePlansWithHandler plans h w) ! i) = 0 \<and>
      error (fst (executePlansWithHandler plans h w) ! i) = Some (errorMessage e) \<and>
      snd (executePlansWithHandler (take (Suc i) plans) h w) = w') \<and>
   fst (executePlansWithHandler plans h w) =
     fst (executePlansWithHandler (take i plans) h w) @
     fst (executePlansWithHandler (drop i plans) h
            (snd (executePlansWithHandler (take i plans) h w)))"
proof -
  have split: "fst (executePlansWithHandler plans h w) =
     fst (executePlansWithHandler (take i plans) h w) @
     fst (executePlansWithHandler (drop i plans) h
            (snd (executePlansWithHandler (take i plans) h w)))"
    using executePlans_append_fst[of "take i plans" "drop i plans" h w] by simp
  have len: "length (fst (executePlansWithHandler plans h w)) = length plans"
    by (rule executePlans_length)
  have rest: "i < length plans \<Longrightarrow>
    (res_schema (fst (executePlansWithHandler plans h w) ! i) = plan_schema (plans ! i) \<and>
      res_table (fst (executePlansWithHandler plans h w) ! i) = plan_table (plans ! i) \<and>
      res_mode (fst (executePlansWithHandler plans h w) ! i) = plan_mode (plans ! i)) \<and>
   (plan_mode (plans ! i) = Skip \<longrightarrow>
      status (fst (executePlansWithHandler plans h w) ! i) = Skipped \<and>
      rowsUpserted (fst (executePlansWithHandler plans h w) ! i) = 0 \<and>
      error (fst (executePlansWithHandler plans h w) ! i) = None \<and>
      snd (executePlansWithHandler (take (Suc i) plans) h w) =
        snd (executePlansWithHandler (take i plans) h w)) \<and>
   (plan_mode (plans ! i) = Full \<and>
    h (plans ! i) (snd (executePlansWithHandler (take i plans) h w)) = (Inr n, w') \<longrightarrow>
      status (fst (executePlansWithHandler plans h w) ! i) = Reindexed \<and>
      rowsUpserted (fst (executePlansWithHandler plans h w) ! i) = n \<and>
      error (fst (executePlansWithHandler plans h w) ! i) = None \<and>
      snd (executePlansWithHandler (take (Suc i) plans) h w) = w') \<and>
   (plan_mode (plans ! i) = Full \<and>
    h (plans ! i) (snd (executePlansWithHandler (take i plans) h w)) = (Inl e, w') \<longrightarrow>
      status (fst (executePlansWithHandler plans h w) ! i) = Failed \<and>
      rowsUpserted (fst (executePlansWithHandler plans h w) ! i) = 0 \<and>
      error (fst (executePlansWithHandler plans h w) ! i) = Some (errorMessage e) \<and>
      snd (executePlansWithHandler (take (Suc i) plans) h w) = w')"
  proof -
    assume i: "i < length plans"
    obtain rs v where e: "executePlansWithHandler (take i plans) h w = (rs, v)"
      by (cases "executePlansWithHandler (take i plans) h w")
    note nth = executePlans_nth[OF i, of h w]
    show ?thesis
      unfolding nth(1) nth(2) e
      by (cases "h (plans ! i) v"; cases "plan_mode (plans ! i)")
         (auto simp: executeStep_def split: sum.splits)
  qed
  from len rest split show ?thesis by blast
qed

theorem executePlansWithHandler_results_witness:
  "length (fst (executePlansWithHandler examplePlans exampleHandler [])) = 4 \<and>
   status (fst (executePlansWithHandler examplePlans exampleHandler []) ! 0) = Reindexed \<and>
   rowsUpserted (fst (executePlansWithHandler examplePlans exampleHandler []) ! 0) = 5 \<and>
   status (fst (executePlansWithHandler examplePlans exampleHandler []) ! 1) = Skipped \<and>
   rowsUpserted (fst (executePlansWithHandler examplePlans exampleHandler []) ! 1) = 0 \<and>
   snd (executePlansWithHandler (take 2 examplePlans) exampleHandler []) =
     snd (executePlansWithHandler (take 1 examplePlans) exampleHandler []) \<and>
   status (fst (executePlansWithHandler examplePlans exampleHandler []) ! 2) = Failed \<and>
   rowsUpserted (fst (executePlansWithHandler examplePlans exampleHandler []) ! 2) = 0 \<and>
   error (fst (executePlansWithHandler examplePlans exampleHandler []) ! 2) = Some ''table failed'' \<and>
   res_table (fst (executePlansWithHandler examplePlans exampleHandler []) ! 3) = ''users''"
  using
    executePlansWithHandler_results [of examplePlans exampleHandler "[]" 0 5 "[''users'']"]
    executePlansWithHandler_results [of examplePlans exampleHandler "[]" 1]
    executePlansWithHandler_results [of examplePlans exampleHandler "[]" 2 _ "[''users'', ''orders'']"
      "ErrorObject ''table failed''"]
    executePlansWithHandler_results [of examplePlans exampleHandler "[]" 3]
  by (simp add: examplePlans_def exampleHandler_def executePlansWithHandler_def executeStep_def)

section \<open>Run status and summary\<close>

lemma summarize_foldl:
  "foldl summarizeStep s rs =
     s\<lparr>tablesReindexed := tablesReindexed s + int (length (filter (\<lambda>r. status r = Reindexed) rs)),
       sum_rowsUpserted := sum_rowsUpserted s + sum_list (map rowsUpserted (filter (\<lambda>r. status r = Reindexed) rs)),
       tablesSkipped := tablesSkipped s + int (length (filter (\<lambda>r. status r = Skipped) rs)),
       errors := errors s @ map (\<lambda>r. \<lparr>err_tableKey = tableKey (res_schema r) (res_table r),
            err_message = (if truthy (error r) then the (error r) else ''unknown_table_error'')\<rparr>)
            (filter (\<lambda>r. status r = Failed) rs)\<rparr>"
proof (induction rs arbitrary: s)
  case Nil
  then show ?case by simp
next
  case (Cons r rs)
  show ?case
    by (cases "status r") (simp_all add: Cons.IH, simp_all add: summarizeStep_def)
qed

text \<open>
  For a fatal error that is null or has a non-empty message, the run status and the
  summary are as the specification says: failed for a fatal error; otherwise
  partial_success when some table result has status failed, and success when none has.
  \<^verbatim>\<open>summarizeRun\<close> counts the reindexed tables in \<^verbatim>\<open>tablesReindexed\<close>, sums their rows
  in \<^verbatim>\<open>rowsUpserted\<close>, and has one \<^verbatim>\<open>errors\<close> entry per failed table, in order, under
  the table's key.
\<close>

lemma run_status_and_summary:
  "(fatalError = Some message \<and> message \<noteq> [] \<longrightarrow> computeRunStatus fatalError rs = RunFailed) \<and>
   (fatalError = None \<and> (\<exists>r \<in> set rs. status r = Failed) \<longrightarrow>
      computeRunStatus fatalError rs = PartialSuccess) \<and>
   (fatalError = None \<and> (\<forall>r \<in> set rs. status r \<noteq> Failed) \<longrightarrow>
      computeRunStatus fatalError rs = Success) \<and>
   tablesReindexed (summarizeRun ps rs) = int (length (filter (\<lambda>r. status r = Reindexed) rs)) \<and>
   sum_rowsUpserted (summarizeRun ps rs) =
     sum_list (map rowsUpserted (filter (\<lambda>r. status r = Reindexed) rs)) \<and>
   map err_tableKey (errors (summarizeRun ps rs)) =
     map (\<lambda>r. tableKey (res_schema r) (res_table r)) (filter (\<lambda>r. status r = Failed) rs) \<and>
   length (errors (summarizeRun ps rs)) = length (filter (\<lambda>r. status r = Failed) rs)"
  by (auto simp: computeRunStatus_def summarizeRun_def summarize_foldl defaultRunSummary_def
      list_ex_iff comp_def)

lemma run_status_and_summary_example:
  "computeRunStatus (Some ''boom'') exampleResults = RunFailed \<and>
   computeRunStatus None exampleResults = PartialSuccess \<and>
   computeRunStatus None (take 1 exampleResults) = Success \<and>
   tablesReindexed (summarizeRun (take 2 examplePlans) exampleResults) = 1 \<and>
   sum_rowsUpserted (summarizeRun (take 2 examplePlans) exampleResults) = 5 \<and>
   map err_tableKey (errors (summarizeRun (take 2 examplePlans) exampleResults)) = [''public.orders''] \<and>
   length (errors (summarizeRun (take 2 examplePlans) exampleResults)) = 1"
  using
    run_status_and_summary [of "Some ''boom''" "''boom''" exampleResults "take 2 examplePlans"]
    run_status_and_summary [of None "''boom''" exampleResults "take 2 examplePlans"]
    run_status_and_summary [of None "''boom''" "take 1 exampleResults" "take 2 examplePlans"]
  by (simp add: exampleResults_def tableKey_def)

text \<open>
  C6. A fatal error whose message is the empty string (the message of an \<^verbatim>\<open>Error\<close>
  created without one) is not null, yet \<^verbatim>\<open>computeRunStatus\<close> does not return failed
  for it: the test \<^verbatim>\<open>if (params.fatalError)\<close> takes the empty string for no error,
  and a run without failed tables is reported as a success.
\<close>

theorem computeRunStatus_empty_fatal_error:
  "Some [] \<noteq> (None :: string option) \<and> computeRunStatus (Some []) [] = Success"
  by (simp add: computeRunStatus_def)

section \<open>Decimal numerals\<close>

lemma digitChar_inj:
  assumes "a < 10" "b < 10" "digitChar a = digitChar b"
  shows "a = b"
proof -
  have "distinct ''0123456789''" by simp
  moreover have "a < length ''0123456789''" "b < length ''0123456789''" using assms by simp_all
  ultimately show ?thesis
    using assms(3) unfolding digitChar_def by (simp only: nth_eq_iff_index_eq)
qed

lemma digitChar_cases:
  assumes "d < 10"
  shows "digitChar d \<in> set ''0123456789''"
  unfolding digitChar_def using assms by (intro nth_mem) simp

lemma isDigit_member: "c \<in> set ''0123456789'' \<Longrightarrow> isDigit c"
  by (auto simp: isDigit_def)

lemma digitChar_isDigit: "d < 10 \<Longrightarrow> isDigit (digitChar d)"
  by (rule isDigit_member) (rule digitChar_cases)

lemma digitValue_digitChar:
  assumes "d < 10"
  shows "of_char (digitChar d) - 48 = d"
proof -
  have "d \<in> {0, 1, 2, 3, 4, 5, 6, 7, 8, 9}" using assms by auto
  then show ?thesis by (auto simp: digitChar_def)
qed

lemma natOfDigits_snoc: "natOfDigits (ds @ [c]) = 10 * natOfDigits ds + (of_char c - 48)"
  by (simp add: natOfDigits_def)

lemma natOfDigits_stringOfNat: "natOfDigits (stringOfNat n) = n"
proof (induction n rule: stringOfNat.induct)
  case (1 n)
  show ?case
  proof (cases "n < 10")
    case True
    then show ?thesis
      by (subst stringOfNat.simps) (simp add: natOfDigits_def digitValue_digitChar)
  next
    case False
    then have "natOfDigits (stringOfNat (n div 10)) = n div 10" using 1 by simp
    then show ?thesis
      using False
      by (subst stringOfNat.simps) (simp add: natOfDigits_snoc digitValue_digitChar)
  qed
qed

lemma stringOfNat_inj: "stringOfNat a = stringOfNat b \<Longrightarrow> a = b"
  by (metis natOfDigits_stringOfNat)

lemma stringOfNat_digits: "list_all isDigit (stringOfNat n) \<and> stringOfNat n \<noteq> []"
proof (induction n rule: stringOfNat.induct)
  case (1 n)
  show ?case
  proof (cases "n < 10")
    case True
    then show ?thesis by (subst (1 2) stringOfNat.simps) (simp add: digitChar_isDigit)
  next
    case False
    then show ?thesis using 1 by (subst (1 2) stringOfNat.simps) (simp add: digitChar_isDigit)
  qed
qed

text \<open>What may follow a numeral: nothing, or a character that is not a digit.\<close>

definition noDigitAhead :: "string \<Rightarrow> bool" where
  "noDigitAhead r = (case r of [] \<Rightarrow> True | c # _ \<Rightarrow> \<not> isDigit c)"

lemma takeWhile_digits:
  "list_all isDigit ds \<Longrightarrow> noDigitAhead r \<Longrightarrow> takeWhile isDigit (ds @ r) = ds"
  by (induction ds) (auto simp: noDigitAhead_def split: list.splits)

lemma digits_split:
  assumes "list_all isDigit ds" "list_all isDigit ds'" "noDigitAhead r" "noDigitAhead r'"
    and "ds @ r = ds' @ r'"
  shows "ds = ds' \<and> r = r'"
proof -
  have "ds = takeWhile isDigit (ds @ r)"
    using takeWhile_digits[OF assms(1,3)] by simp
  also have "\<dots> = takeWhile isDigit (ds' @ r')" by (simp only: assms(5))
  also have "\<dots> = ds'" by (rule takeWhile_digits[OF assms(2,4)])
  finally show ?thesis using assms(5) by simp
qed

lemma stringOfNat_hd: "isDigit (hd (stringOfNat n))"
  using stringOfNat_digits[of n] by (cases "stringOfNat n") simp_all

lemma stringOfInt_split:
  assumes "noDigitAhead r" "noDigitAhead r'" "stringOfInt a @ r = stringOfInt b @ r'"
  shows "a = b \<and> r = r'"
proof -
  have minus: "\<not> isDigit CHR ''-''" by (simp add: isDigit_def)
  have nat_case: "stringOfNat m @ r = stringOfNat n @ r' \<Longrightarrow> m = n \<and> r = r'" for m n
    using digits_split[OF _ _ assms(1,2)] stringOfNat_digits stringOfNat_inj by blast
  consider (nn) "a < 0" "b < 0" | (np) "a < 0" "\<not> b < 0" | (pn) "\<not> a < 0" "b < 0"
    | (pp) "\<not> a < 0" "\<not> b < 0" by blast
  then show ?thesis
  proof cases
    case nn
    then have "nat (- a) = nat (- b) \<and> r = r'"
      using assms(3) nat_case[of "nat (- a)" "nat (- b)"] by (simp add: stringOfInt_def)
    then show ?thesis using nn by auto
  next
    case np
    have "hd (stringOfInt a @ r) = hd (stringOfInt b @ r')" by (simp only: assms(3))
    then have "CHR ''-'' = hd (stringOfNat (nat b) @ r')"
      using np by (simp add: stringOfInt_def)
    then have "CHR ''-'' = hd (stringOfNat (nat b))"
      using stringOfNat_digits[of "nat b"] by simp
    then show ?thesis using stringOfNat_hd[of "nat b"] minus by simp
  next
    case pn
    have "hd (stringOfInt a @ r) = hd (stringOfInt b @ r')" by (simp only: assms(3))
    then have "CHR ''-'' = hd (stringOfNat (nat a) @ r)"
      using pn by (simp add: stringOfInt_def)
    then have "CHR ''-'' = hd (stringOfNat (nat a))"
      using stringOfNat_digits[of "nat a"] by simp
    then show ?thesis using stringOfNat_hd[of "nat a"] minus by simp
  next
    case pp
    then have "nat a = nat b \<and> r = r'"
      using assms(3) nat_case[of "nat a" "nat b"] by (simp add: stringOfInt_def)
    then show ?thesis using pp by auto
  qed
qed


section \<open>Chunk aggregation\<close>

lemma mapSet_fresh: "k \<notin> fst ` set entries \<Longrightarrow> mapSet k v entries = entries @ [(k, v)]"
  by (induction entries) auto

lemma foldl_add_fst: "foldl (\<lambda>total partial. total + fst partial) a xs = a + sum_list (map fst xs)"
  for a :: int
  by (induction xs arbitrary: a) auto

lemma foldl_add_snd: "foldl (\<lambda>total partial. total + snd partial) a xs = a + sum_list (map snd xs)"
  for a :: int
  by (induction xs arbitrary: a) auto

definition keyed :: "PoolState \<Rightarrow> bool" where
  "keyed st \<longleftrightarrow> (\<forall>k a. aggregators st k = Some a \<longrightarrow> tableKey (agg_schema a) (agg_table a) = k)"

lemma keyed_initial: "keyed initialPool"
  by (simp add: keyed_def initialPool_def)

lemma keyed_step: "keyed st \<Longrightarrow> keyed (handleChunkResult cc st m)"
  by (auto simp: keyed_def handleChunkResult_def Let_def split: option.splits if_splits)

lemma step_other:
  assumes "keyed st" "tableKey (chunk_schema m) (chunk_table m) \<noteq> k"
  shows "aggregators (handleChunkResult cc st m) k = aggregators st k"
    and "completionsOf k (handleChunkResult cc st m) = completionsOf k st"
  using assms
  by (auto simp: keyed_def handleChunkResult_def Let_def completionsOf_def split: option.splits)

definition pendingEntries :: "ChunkResult list \<Rightarrow> (string \<times> int \<times> int) list" where
  "pendingEntries ks = map (\<lambda>m. (chunkId m, chunk_rowCount m, chunk_tokenCount m)) ks"

definition aggregateOf :: "string \<Rightarrow> string \<Rightarrow> ChunkResult list \<Rightarrow> TableTokenEstimate" where
  "aggregateOf s t ks =
     \<lparr>est_schema = s, est_table = t, est_rowCount = sum_list (map chunk_rowCount ks),
      est_tokenCount = sum_list (map chunk_tokenCount ks)\<rparr>"

lemma step_same_first:
  assumes "tableKey (chunk_schema m) (chunk_table m) = k" "aggregators st k = None"
    "cc k = Some N"
  shows "N \<noteq> 1 \<Longrightarrow> aggregators (handleChunkResult cc st m) k =
            Some \<lparr>agg_schema = chunk_schema m, agg_table = chunk_table m, totalChunks = N,
                  received = pendingEntries [m]\<rparr>"
    and "N \<noteq> 1 \<Longrightarrow> completionsOf k (handleChunkResult cc st m) = completionsOf k st"
    and "N = 1 \<Longrightarrow> aggregators (handleChunkResult cc st m) k = None"
    and "N = 1 \<Longrightarrow> completionsOf k (handleChunkResult cc st m) =
            completionsOf k st @ [aggregateOf (chunk_schema m) (chunk_table m) [m]]"
  using assms
  by (auto simp: handleChunkResult_def Let_def completionsOf_def pendingEntries_def aggregateOf_def)

lemma step_same_next:
  assumes "tableKey (chunk_schema m) (chunk_table m) = k"
    "aggregators st k = Some \<lparr>agg_schema = s, agg_table = t, totalChunks = N,
                  received = pendingEntries ks\<rparr>"
    "chunkId m \<notin> chunkId ` set ks" "tableKey s t = k"
  shows "int (Suc (length ks)) \<noteq> N \<Longrightarrow> aggregators (handleChunkResult cc st m) k =
            Some \<lparr>agg_schema = s, agg_table = t, totalChunks = N,
                  received = pendingEntries (ks @ [m])\<rparr>"
    and "int (Suc (length ks)) \<noteq> N \<Longrightarrow> completionsOf k (handleChunkResult cc st m) = completionsOf k st"
    and "int (Suc (length ks)) = N \<Longrightarrow> aggregators (handleChunkResult cc st m) k = None"
    and "int (Suc (length ks)) = N \<Longrightarrow> completionsOf k (handleChunkResult cc st m) =
            completionsOf k st @ [aggregateOf s t (ks @ [m])]"
proof -
  have fresh: "chunkId m \<notin> fst ` set (pendingEntries ks)"
    using assms(3) by (auto simp: pendingEntries_def image_iff)
  have upd: "mapSet (chunkId m) (chunk_rowCount m, chunk_tokenCount m) (pendingEntries ks)
              = pendingEntries (ks @ [m])"
    using mapSet_fresh[OF fresh] by (simp add: pendingEntries_def)
  have len: "length (pendingEntries (ks @ [m])) = Suc (length ks)"
    by (simp add: pendingEntries_def)
  show "int (Suc (length ks)) \<noteq> N \<Longrightarrow> aggregators (handleChunkResult cc st m) k =
            Some \<lparr>agg_schema = s, agg_table = t, totalChunks = N,
                  received = pendingEntries (ks @ [m])\<rparr>"
    using assms(1,2) by (simp add: handleChunkResult_def Let_def upd len)
  show "int (Suc (length ks)) \<noteq> N \<Longrightarrow> completionsOf k (handleChunkResult cc st m) = completionsOf k st"
    using assms(1,2) by (simp add: handleChunkResult_def Let_def upd len completionsOf_def)
  show "int (Suc (length ks)) = N \<Longrightarrow> aggregators (handleChunkResult cc st m) k = None"
    using assms(1,2) by (simp add: handleChunkResult_def Let_def upd len)
  show "int (Suc (length ks)) = N \<Longrightarrow> completionsOf k (handleChunkResult cc st m) =
            completionsOf k st @ [aggregateOf s t (ks @ [m])]"
    using assms(1,2,4)
    by (simp add: handleChunkResult_def Let_def upd len completionsOf_def aggregateOf_def
        foldl_add_fst foldl_add_snd)
       (simp add: pendingEntries_def comp_def)
qed

lemma handleChunkResults_snoc:
  "handleChunkResults cc st (ms @ [m]) = handleChunkResult cc (handleChunkResults cc st ms) m"
  by (simp add: handleChunkResults_def)

lemma keyed_run: "keyed st \<Longrightarrow> keyed (handleChunkResults cc st ms)"
  by (induction ms rule: rev_induct) (simp_all add: handleChunkResults_def keyed_step)

lemma per_table_progress:
  assumes cc: "cc k = Some N" and k: "k = tableKey s t"
    and same: "\<forall>m \<in> set ms. tableKey (chunk_schema m) (chunk_table m) = k \<longrightarrow>
                 chunk_schema m = s \<and> chunk_table m = t"
    and dist: "distinct (map chunkId (chunksOf k ms))"
    and len: "int (length (chunksOf k ms)) \<le> N"
    and keyed: "keyed st" and fresh: "aggregators st k = None"
  shows "(chunksOf k ms = [] \<longrightarrow>
            aggregators (handleChunkResults cc st ms) k = None \<and>
            completionsOf k (handleChunkResults cc st ms) = completionsOf k st) \<and>
         (chunksOf k ms \<noteq> [] \<and> int (length (chunksOf k ms)) < N \<longrightarrow>
            aggregators (handleChunkResults cc st ms) k =
              Some \<lparr>agg_schema = s, agg_table = t, totalChunks = N,
                    received = pendingEntries (chunksOf k ms)\<rparr> \<and>
            completionsOf k (handleChunkResults cc st ms) = completionsOf k st) \<and>
         (chunksOf k ms \<noteq> [] \<and> int (length (chunksOf k ms)) = N \<longrightarrow>
            aggregators (handleChunkResults cc st ms) k = None \<and>
            completionsOf k (handleChunkResults cc st ms) =
              completionsOf k st @ [aggregateOf s t (chunksOf k ms)])"
  using same dist len
proof (induction ms rule: rev_induct)
  case Nil
  then show ?case using fresh by (simp add: handleChunkResults_def chunksOf_def)
next
  case (snoc m ms)
  let ?st = "handleChunkResults cc st ms"
  have kst: "keyed ?st" using keyed by (rule keyed_run)
  show ?case
  proof (cases "tableKey (chunk_schema m) (chunk_table m) = k")
    case False
    have same_chunks: "chunksOf k (ms @ [m]) = chunksOf k ms"
      using False by (simp add: chunksOf_def)
    have IH: "(chunksOf k ms = [] \<longrightarrow>
            aggregators ?st k = None \<and> completionsOf k ?st = completionsOf k st) \<and>
         (chunksOf k ms \<noteq> [] \<and> int (length (chunksOf k ms)) < N \<longrightarrow>
            aggregators ?st k =
              Some \<lparr>agg_schema = s, agg_table = t, totalChunks = N,
                    received = pendingEntries (chunksOf k ms)\<rparr> \<and>
            completionsOf k ?st = completionsOf k st) \<and>
         (chunksOf k ms \<noteq> [] \<and> int (length (chunksOf k ms)) = N \<longrightarrow>
            aggregators ?st k = None \<and>
            completionsOf k ?st = completionsOf k st @ [aggregateOf s t (chunksOf k ms)])"
      using snoc.IH snoc.prems by (simp add: same_chunks)
    show ?thesis
      unfolding handleChunkResults_snoc same_chunks
      using IH step_other[OF kst False, of cc] by simp
  next
    case True
    have more_chunks: "chunksOf k (ms @ [m]) = chunksOf k ms @ [m]"
      using True by (simp add: chunksOf_def)
    have st_m: "chunk_schema m = s" "chunk_table m = t"
      using snoc.prems(1) True by simp_all
    have dist': "distinct (map chunkId (chunksOf k ms))"
      and new: "chunkId m \<notin> chunkId ` set (chunksOf k ms)"
      using snoc.prems(2) by (simp_all add: more_chunks)
    have len': "int (length (chunksOf k ms)) < N"
      using snoc.prems(3) by (simp add: more_chunks)
    have IH: "(chunksOf k ms = [] \<longrightarrow>
            aggregators ?st k = None \<and> completionsOf k ?st = completionsOf k st) \<and>
         (chunksOf k ms \<noteq> [] \<longrightarrow>
            aggregators ?st k =
              Some \<lparr>agg_schema = s, agg_table = t, totalChunks = N,
                    received = pendingEntries (chunksOf k ms)\<rparr> \<and>
            completionsOf k ?st = completionsOf k st)"
      using snoc.IH snoc.prems(1) dist' len' by simp
    show ?thesis
    proof (cases "chunksOf k ms = []")
      case empty: True
      then have none: "aggregators ?st k = None" and c: "completionsOf k ?st = completionsOf k st"
        using IH by simp_all
      show ?thesis
        unfolding handleChunkResults_snoc more_chunks
        using step_same_first[where cc=cc, OF True none cc] c empty st_m
        by (cases "N = 1") auto
    next
      case nonempty: False
      then have some: "aggregators ?st k =
              Some \<lparr>agg_schema = s, agg_table = t, totalChunks = N,
                    received = pendingEntries (chunksOf k ms)\<rparr>"
        and c: "completionsOf k ?st = completionsOf k st"
        using IH by simp_all
      show ?thesis
        unfolding handleChunkResults_snoc more_chunks
        using step_same_next[where cc=cc, OF True some new k[symmetric]] c snoc.prems(3) more_chunks
        by (cases "int (Suc (length (chunksOf k ms))) = N") auto
    qed
  qed
qed


lemma chunksOf_take_prefix:
  "chunksOf k ms = chunksOf k (take j ms) @ chunksOf k (drop j ms)"
  unfolding chunksOf_def by (metis append_take_drop_id filter_append)

lemma completionsOf_initial: "completionsOf k initialPool = []"
  by (simp add: completionsOf_def initialPool_def)

lemma aggregateOf_mset:
  "mset ks' = mset ks \<Longrightarrow> aggregateOf s t ks' = aggregateOf s t ks"
  unfolding aggregateOf_def
  by (metis mset_map sum_mset_sum_list)

text \<open>
  C3. Let a table with key \<open>k\<close> be split into \<open>N \<ge> 1\<close> chunks, \<open>N\<close> being the chunk
  count recorded for \<open>k\<close> at queue construction, and let the chunk results arrive in any
  order, interleaved with those of other tables, the \<open>N\<close> results of the table having
  distinct chunk ids. Then \<^verbatim>\<open>onTableComplete\<close> fires exactly once for the table, with
  the sums of the chunks' row counts and token counts, and the aggregator entry is
  discarded; it has not fired after any prefix of the arrivals that holds fewer than
  \<open>N\<close> of the table's chunks; and every other order of arrival gives the same calls.
\<close>

theorem chunk_aggregation_exactly_once:
  assumes cc: "chunkCounts k = Some N" and k: "k = tableKey s t"
    and same: "\<forall>m \<in> set msgs. tableKey (chunk_schema m) (chunk_table m) = k \<longrightarrow>
                 chunk_schema m = s \<and> chunk_table m = t"
    and dist: "distinct (map chunkId (chunksOf k msgs))"
    and len: "int (length (chunksOf k msgs)) = N" and pos: "0 < N"
  shows "completionsOf k (handleChunkResults chunkCounts initialPool msgs) =
           [\<lparr>est_schema = s, est_table = t,
             est_rowCount = sum_list (map chunk_rowCount (chunksOf k msgs)),
             est_tokenCount = sum_list (map chunk_tokenCount (chunksOf k msgs))\<rparr>] \<and>
         aggregators (handleChunkResults chunkCounts initialPool msgs) k = None \<and>
         (int (length (chunksOf k (take j msgs))) < N \<longrightarrow>
            completionsOf k (handleChunkResults chunkCounts initialPool (take j msgs)) = []) \<and>
         (mset msgs' = mset msgs \<longrightarrow>
            completionsOf k (handleChunkResults chunkCounts initialPool msgs') =
            completionsOf k (handleChunkResults chunkCounts initialPool msgs))"
proof -
  have init: "keyed initialPool" "aggregators initialPool k = None"
    by (rule keyed_initial) (simp add: initialPool_def)
  have nonempty: "chunksOf k msgs \<noteq> []" using len pos by auto
  have full: "completionsOf k (handleChunkResults chunkCounts initialPool msgs) =
                [aggregateOf s t (chunksOf k msgs)]"
    and gone: "aggregators (handleChunkResults chunkCounts initialPool msgs) k = None"
    using per_table_progress[where cc=chunkCounts, OF cc k same dist _ init] len nonempty
    by (simp_all add: completionsOf_initial)
  have before: "completionsOf k (handleChunkResults chunkCounts initialPool (take j msgs)) = []"
    if less: "int (length (chunksOf k (take j msgs))) < N"
  proof -
    have same': "\<forall>m \<in> set (take j msgs). tableKey (chunk_schema m) (chunk_table m) = k \<longrightarrow>
                 chunk_schema m = s \<and> chunk_table m = t"
      using same by (meson in_set_takeD)
    have dist': "distinct (map chunkId (chunksOf k (take j msgs)))"
      using dist chunksOf_take_prefix[of k msgs j] by simp
    have len': "int (length (chunksOf k (take j msgs))) \<le> N" using less by simp
    show ?thesis
      using per_table_progress[where cc=chunkCounts, OF cc k same' dist' len' init] less
      by (cases "chunksOf k (take j msgs) = []") (simp_all add: completionsOf_initial)
  qed
  have perm: "completionsOf k (handleChunkResults chunkCounts initialPool msgs') =
            completionsOf k (handleChunkResults chunkCounts initialPool msgs)"
    if eq: "mset msgs' = mset msgs"
  proof -
    have set_eq: "set msgs' = set msgs" using eq by (rule mset_eq_setD)
    have chunks_eq: "mset (chunksOf k msgs') = mset (chunksOf k msgs)"
      using eq by (simp add: chunksOf_def)
    have same': "\<forall>m \<in> set msgs'. tableKey (chunk_schema m) (chunk_table m) = k \<longrightarrow>
                 chunk_schema m = s \<and> chunk_table m = t"
      using same set_eq by simp
    have "mset (map chunkId (chunksOf k msgs')) = mset (map chunkId (chunksOf k msgs))"
      using chunks_eq by (metis mset_map)
    then have dist': "distinct (map chunkId (chunksOf k msgs'))"
      using dist by (metis mset_eq_imp_distinct_iff)
    have len': "int (length (chunksOf k msgs')) = N"
      using len chunks_eq by (metis mset_eq_length)
    have nonempty': "chunksOf k msgs' \<noteq> []" using len' pos by auto
    have "completionsOf k (handleChunkResults chunkCounts initialPool msgs') =
                [aggregateOf s t (chunksOf k msgs')]"
      using per_table_progress[where cc=chunkCounts, OF cc k same' dist' _ init] len' nonempty'
      by (simp add: completionsOf_initial)
    then show ?thesis using full aggregateOf_mset[OF chunks_eq] by simp
  qed
  show ?thesis using full gone before perm by (simp add: aggregateOf_def)
qed

lemma exampleChunks_users:
  "chunksOf ''public.users'' exampleChunks = [exampleChunks ! 0, exampleChunks ! 2, exampleChunks ! 3]"
  by (simp add: chunksOf_def exampleChunks_def tableKey_def)

theorem chunk_aggregation_exactly_once_witness:
  "completionsOf ''public.users'' (handleChunkResults exampleChunkCounts initialPool exampleChunks) =
     [\<lparr>est_schema = ''public'', est_table = ''users'', est_rowCount = 25, est_tokenCount = 260\<rparr>] \<and>
   aggregators (handleChunkResults exampleChunkCounts initialPool exampleChunks) ''public.users'' = None \<and>
   completionsOf ''public.users''
     (handleChunkResults exampleChunkCounts initialPool (take 3 exampleChunks)) = [] \<and>
   completionsOf ''public.users'' (handleChunkResults exampleChunkCounts initialPool (rev exampleChunks)) =
     completionsOf ''public.users'' (handleChunkResults exampleChunkCounts initialPool exampleChunks)"
proof -
  have cc: "exampleChunkCounts ''public.users'' = Some 3"
    by (simp add: exampleChunkCounts_def)
  have k: "''public.users'' = tableKey ''public'' ''users''"
    by (simp add: tableKey_def)
  have same: "\<forall>m \<in> set exampleChunks.
      tableKey (chunk_schema m) (chunk_table m) = ''public.users'' \<longrightarrow>
      chunk_schema m = ''public'' \<and> chunk_table m = ''users''"
    by (simp add: exampleChunks_def tableKey_def)
  have dist: "distinct (map chunkId (chunksOf ''public.users'' exampleChunks))"
    by (simp add: exampleChunks_users) (simp add: exampleChunks_def)
  have len: "int (length (chunksOf ''public.users'' exampleChunks)) = 3"
    by (simp add: exampleChunks_users)
  have less: "int (length (chunksOf ''public.users'' (take 3 exampleChunks))) < 3"
    by (simp add: chunksOf_def exampleChunks_def tableKey_def)
  have sums: "sum_list (map chunk_rowCount (chunksOf ''public.users'' exampleChunks)) = 25"
    "sum_list (map chunk_tokenCount (chunksOf ''public.users'' exampleChunks)) = 260"
    by (simp_all add: exampleChunks_users) (simp_all add: exampleChunks_def)
  show ?thesis
    using chunk_aggregation_exactly_once[where chunkCounts=exampleChunkCounts and j=3
        and msgs'="rev exampleChunks", OF cc k same dist len] less sums
    by simp
qed

section \<open>Queue construction\<close>

lemma ceilDiv_ceiling: "b \<noteq> 0 \<Longrightarrow> ceilDiv a b = \<lceil>real_of_int a / real_of_int b\<rceil>"
  unfolding ceilDiv_def ceiling_def
  by (metis floor_divide_of_int_eq minus_divide_left of_int_minus)

lemma buildQueue_snoc:
  "buildQueue (tables @ [tableInfo]) rowCounts largeTableThreshold chunkSize =
     buildQueueStep rowCounts largeTableThreshold chunkSize
       (buildQueue tables rowCounts largeTableThreshold chunkSize) tableInfo"
  by (simp add: buildQueue_def)

lemma buildQueue_chunkSize_nonpositive:
  "chunkSize \<le> 0 \<Longrightarrow>
   buildQueue tables rowCounts largeTableThreshold chunkSize = (map TableItem tables, Map.empty)"
proof (induction tables rule: rev_induct)
  case Nil
  show ?case by (simp add: buildQueue_def)
next
  case (snoc tableInfo tables)
  then show ?case by (simp add: buildQueue_snoc buildQueueStep_def Let_def)
qed

lemma buildQueueStep_absent_rowCount:
  assumes "rowCounts (tableKey (ti_schema tableInfo) (ti_table tableInfo)) = None"
    and "0 < largeTableThreshold \<or> chunkSize \<le> 0"
  shows "buildQueueStep rowCounts largeTableThreshold chunkSize (queue, chunkCounts) tableInfo =
           (queue @ [TableItem tableInfo], chunkCounts)"
  using assms by (auto simp: buildQueueStep_def Let_def)

lemma ceilDiv_bounds:
  assumes "0 < b" "0 \<le> a"
  shows "0 \<le> ceilDiv a b" and "ceilDiv a b \<le> a"
proof -
  have "(- a) div b \<le> 0"
    using assms by (simp add: div_nonpos_pos_le0)
  then show "0 \<le> ceilDiv a b" by (simp add: ceilDiv_def)
  have "- a \<le> (- a) div b"
  proof (cases "a = 0")
    case True
    then show ?thesis by simp
  next
    case False
    then have "- a < 0" using assms by simp
    from zdiv_mono2_neg[OF this, of 1 b] show ?thesis using assms by simp
  qed
  then show "ceilDiv a b \<le> a" by (simp add: ceilDiv_def)
qed

text \<open>
  A table that is split gets as many chunk items as its recorded chunk count, with
  distinct chunk ids, offsets \<open>i * chunkSize\<close> and the chunk size as row limit.
\<close>

lemma chunkIds_distinct:
  "distinct (map (\<lambda>i. key @ ''#'' @ stringOfNat i) [0 ..< n])"
  by (auto simp: distinct_map inj_on_def dest: stringOfNat_inj)

lemma buildQueueStep_split:
  assumes "rowCounts (tableKey (ti_schema tableInfo) (ti_table tableInfo)) = Some n"
    and "largeTableThreshold \<le> n" and "0 < chunkSize"
  shows "buildQueueStep rowCounts largeTableThreshold chunkSize (queue, chunkCounts) tableInfo =
           (queue @
              map (\<lambda>i. ChunkItem tableInfo
                          (tableKey (ti_schema tableInfo) (ti_table tableInfo) @ ''#'' @ stringOfNat i)
                          (int i * chunkSize) chunkSize
                          (tableKey (ti_schema tableInfo) (ti_table tableInfo)))
                  [0 ..< nat (ceilDiv n chunkSize)],
            chunkCounts(tableKey (ti_schema tableInfo) (ti_table tableInfo) \<mapsto> ceilDiv n chunkSize))"
  using assms by (simp add: buildQueueStep_def Let_def)

text \<open>
  C10. With a large-table threshold of zero, a table whose row count is absent from
  \<^verbatim>\<open>rowCounts\<close> (so taken as 0) is not enqueued as one whole-table item: it reaches the
  chunk branch with \<open>ceil(0 / chunkSize) = 0\<close> chunks, so the queue gets no item for it
  and its expected chunk count is recorded as 0.
\<close>

theorem buildQueue_zero_threshold_drops_table:
  "buildQueue [exampleTable] Map.empty 0 10 = ([], [''public.users'' \<mapsto> 0])"
  by (simp add: buildQueue_def buildQueueStep_def exampleTable_def Let_def ceilDiv_def tableKey_def)

section \<open>Canonical JSON is independent of key order\<close>

lemmas json_eval =
  stableStringify_def objectFromEntries_def arrayIndex_def isDigit_def natOfDigits_def
  quoteJsonString_def escapeChar_def stringOfInt_def stringOfNat.simps digitChar_def hexDigit_def

lemma sort_keys_unique:
  fixes ks ks' :: "string list"
  assumes "distinct ks" "distinct ks'" "set ks = set ks'"
  shows "sort ks = sort ks'"
  using assms by (intro sorted_distinct_set_unique) simp_all

lemma sortJsonValue_key_order:
  "sameUpToKeyOrder v w \<Longrightarrow> sortJsonValue v = sortJsonValue w"
proof (induction rule: sameUpToKeyOrder.induct)
  case (same v)
  show ?case by simp
next
  case (arrays items items')
  then have "map sortJsonValue items = map sortJsonValue items'"
    by (induction rule: list_all2_induct) simp_all
  then show ?case by simp
next
  case (objects entries entries')
  have keys: "sort (map fst entries) = sort (map fst entries')"
    using objects(1-3) by (rule sort_keys_unique)
  have "map (\<lambda>key. (key, sortJsonValue (getProperty entries key))) (sort (map fst entries)) =
        map (\<lambda>key. (key, sortJsonValue (getProperty entries' key))) (sort (map fst entries))"
  proof (rule map_cong [OF refl])
    fix key
    assume "key \<in> set (sort (map fst entries))"
    then have "key \<in> set (map fst entries)" by simp
    with objects(4) show "(key, sortJsonValue (getProperty entries key)) =
        (key, sortJsonValue (getProperty entries' key))"
      by blast
  qed
  then show ?case
    unfolding sortJsonValue.simps keys [symmetric] by (rule arg_cong)
qed

text \<open>
  C7. Two nested values that are equal up to the insertion order of the object keys at
  every nesting level have the same canonical string, and so the same fingerprint
  (\<open>sha256Hex\<close> stands for the hash function); the order of array elements stays
  significant: the arrays \<open>[1,2]\<close> and \<open>[2,1]\<close> have different canonical strings.
\<close>

theorem stableStringify_key_order_independent:
  \<open>(sameUpToKeyOrder v w \<longrightarrow>
      stableStringify v = stableStringify w \<and>
      (sha256Hex :: string \<Rightarrow> string) (stableStringify v) = sha256Hex (stableStringify w)) \<and>
   stableStringify (JArray [JNumber 1, JNumber 2]) = ''[1,2]'' \<and>
   stableStringify (JArray [JNumber 2, JNumber 1]) = ''[2,1]'' \<and>
   stableStringify (JArray [JNumber 1, JNumber 2]) \<noteq> stableStringify (JArray [JNumber 2, JNumber 1])\<close>
proof -
  have "sameUpToKeyOrder v w \<longrightarrow>
      stableStringify v = stableStringify w \<and>
      sha256Hex (stableStringify v) = sha256Hex (stableStringify w)"
    by (simp add: stableStringify_def sortJsonValue_key_order)
  moreover have \<open>stableStringify (JArray [JNumber 1, JNumber 2]) = ''[1,2]''\<close>
    by (simp add: json_eval)
  moreover have \<open>stableStringify (JArray [JNumber 2, JNumber 1]) = ''[2,1]''\<close>
    by (simp add: json_eval)
  ultimately show ?thesis by simp
qed

lemma exampleNested_same: "sameUpToKeyOrder exampleNested exampleNestedReordered"
proof -
  have inner: "sameUpToKeyOrder (JObject [(''y'', JNumber 2), (''x'', JNumber 1)])
                 (JObject [(''x'', JNumber 1), (''y'', JNumber 2)])"
    by (rule sameUpToKeyOrder.objects) (auto intro: sameUpToKeyOrder.same)
  have arr: "sameUpToKeyOrder (JArray [JObject [(''y'', JNumber 2), (''x'', JNumber 1)], JNull])
                 (JArray [JObject [(''x'', JNumber 1), (''y'', JNumber 2)], JNull])"
    by (rule sameUpToKeyOrder.arrays) (simp add: inner sameUpToKeyOrder.same)
  show ?thesis
    unfolding exampleNested_def exampleNestedReordered_def
    by (rule sameUpToKeyOrder.objects) (auto intro: sameUpToKeyOrder.same arr)
qed

theorem stableStringify_key_order_independent_witness:
  \<open>stableStringify exampleNested = stableStringify exampleNestedReordered \<and>
   stableStringify exampleNestedReordered = ''{"a":"v","b":[{"x":1,"y":2},null]}'' \<and>
   stableStringify (JArray [JNumber 1, JNumber 2]) \<noteq> stableStringify (JArray [JNumber 2, JNumber 1])\<close>
proof -
  have \<open>stableStringify exampleNestedReordered = ''{"a":"v","b":[{"x":1,"y":2},null]}''\<close>
    by (simp add: json_eval exampleNestedReordered_def)
  then show ?thesis
    using stableStringify_key_order_independent [of exampleNested exampleNestedReordered "\<lambda>s. s"]
      exampleNested_same
    by simp
qed

section \<open>Excluded columns and the page content\<close>

text \<open>
  On the path that produces lines, the exclusion works: a selected column is never an
  excluded one, every line comes from a selected column, and the page content does not
  depend on the values of the excluded columns.
\<close>

lemma selected_not_excluded:
  assumes "name \<in> set (selectPageContentColumns tableInfo textColumnsMode excludedColumns)"
  shows "\<exists>column \<in> set (columns tableInfo).
           columnName column = name \<and> toLowerCase (columnName column) \<notin> excludedColumns"
  using assms by (auto simp: selectPageContentColumns_def)

lemma createPageContent_ignores_excluded:
  assumes lines: "pageContentLines row
                    (selectPageContentColumns tableInfo textColumnsMode excludedColumns) \<noteq> []"
    and agree: "\<forall>column \<in> set (columns tableInfo).
                  toLowerCase (columnName column) \<notin> excludedColumns \<longrightarrow>
                  getProperty row' (columnName column) = getProperty row (columnName column)"
  shows "createPageContent row' tableInfo textColumnsMode excludedColumns =
         createPageContent row tableInfo textColumnsMode excludedColumns"
proof -
  let ?selected = "selectPageContentColumns tableInfo textColumnsMode excludedColumns"
  have "\<forall>name \<in> set ?selected. getProperty row' name = getProperty row name"
    using agree selected_not_excluded by metis
  then have "pageContentLines row' ?selected = pageContentLines row ?selected"
    unfolding pageContentLines_def by (intro arg_cong[where f="filter _"] map_cong refl) simp
  then show ?thesis using lines by (simp add: createPageContent_def Let_def)
qed

lemma pageContentLines_from_selected:
  assumes "line \<in> set (pageContentLines row selectedColumns)"
  shows "\<exists>name \<in> set selectedColumns.
           line = name @ '': '' @ normalizeValue (getProperty row name)"
  using assms by (auto simp: pageContentLines_def Let_def split: if_splits)

lemma usersTable_selected: "selectPageContentColumns usersTable Auto (set (map toLowerCase [''secret''])) = [''name'']"
  by (simp add: selectPageContentColumns_def isTextualColumn_def toLowerCase_def lowerChar_def
      TEXTUAL_DATA_TYPES_def sublist_code usersTable_def)

lemma leak_lines: "pageContentLines leakRow [''name''] = []"
  by (simp add: pageContentLines_def leakRow_def)

lemma leak_row: \<open>stableStringify (JObject leakRow) = ''{"id":1,"name":null,"secret":"token"}''\<close>
  by (simp add: json_eval leakRow_def)

lemma leak_content:
  \<open>createPageContent leakRow usersTable Auto (set (map toLowerCase [''secret''])) =
     ''[public.users] {"id":1,"name":null,"secret":"token"}''\<close>
  unfolding createPageContent_def usersTable_selected Let_def leak_lines leak_row
  by (simp add: usersTable_def)

lemma leak_pk: "extractPrimaryKey leakRow usersTable = Inr [(''id'', JNumber 1)]"
  by (simp add: extractPrimaryKey_def usersTable_def leakRow_def)

text \<open>
  C4. With the table of the repository's own test, the column \<^verbatim>\<open>secret\<close> excluded and
  a row whose only textual, non-excluded column \<^verbatim>\<open>name\<close> is null, no line is produced
  and the fallback embeds the whole canonical row: the excluded column and its value
  \<^verbatim>\<open>token\<close> appear in the page content.
\<close>

theorem excluded_column_leaks_in_fallback:
  \<open>map_sum id pageContent
     (transformRowToDocument sha256Hex leakRow usersTable ''run_1'' Auto [''secret''])
     = Inr ''[public.users] {"id":1,"name":null,"secret":"token"}''\<close>
  unfolding transformRowToDocument_def Let_def leak_pk leak_content
  by simp

section \<open>\<^verbatim>\<open>JSON.stringify\<close> is injective on values with plain numbers\<close>

text \<open>
  \<^verbatim>\<open>JSON.stringify\<close> writes \<^verbatim>\<open>NaN\<close>, the infinities and \<^verbatim>\<open>null\<close> in the same way,
  and negative zero as zero. Apart from these numbers, the text determines the value.
\<close>

lemma jsonStringify_special_numbers:
  "jsonStringify (JsonSpecialNumber NaN) = jsonStringify JsonNull"
  "jsonStringify (JsonSpecialNumber PlusInfinity) = jsonStringify JsonNull"
  "jsonStringify (JsonSpecialNumber MinusInfinity) = jsonStringify JsonNull"
  "jsonStringify (JsonSpecialNumber MinusZero) = jsonStringify (JsonNumber 0)"
  by (simp_all add: stringOfInt_def stringOfNat.simps digitChar_def)

subsection \<open>Quoted strings\<close>

lemma hexDigit_inj:
  assumes "a < 16" "b < 16" "hexDigit a = hexDigit b"
  shows "a = b"
proof -
  have "distinct ''0123456789abcdef''" by simp
  moreover have "a < length ''0123456789abcdef''" "b < length ''0123456789abcdef''"
    using assms by simp_all
  ultimately show ?thesis
    using assms(3) unfolding hexDigit_def by (simp only: nth_eq_iff_index_eq)
qed

lemma control_char_eq:
  assumes "(of_char c :: nat) < 32" "(of_char c' :: nat) < 32"
    and "hexDigit (of_char c div 16) = hexDigit (of_char c' div 16)"
    and "hexDigit (of_char c mod 16) = hexDigit (of_char c' mod 16)"
  shows "c = c'"
proof -
  have "(of_char c :: nat) div 16 = of_char c' div 16"
    using assms by (intro hexDigit_inj) simp_all
  moreover have "(of_char c :: nat) mod 16 = of_char c' mod 16"
    using assms by (intro hexDigit_inj) simp_all
  ultimately have "(of_char c :: nat) = of_char c'"
    by (metis div_mult_mod_eq)
  then show ?thesis by simp
qed

lemma escapeChar_split:
  assumes "escapeChar c @ x = escapeChar c' @ x'"
  shows "c = c' \<and> x = x'"
  using assms
  by (auto simp: escapeChar_def split: if_splits dest: control_char_eq)


lemma escapeChar_hd: "escapeChar c \<noteq> [] \<and> hd (escapeChar c) \<noteq> CHR 0x22"
  by (simp add: escapeChar_def)

lemma escaped_split:
  assumes "concat (map escapeChar s) @ CHR 0x22 # r = concat (map escapeChar s') @ CHR 0x22 # r'"
  shows "s = s' \<and> r = r'"
  using assms
proof (induction s arbitrary: s')
  case Nil
  show ?case
  proof (cases s')
    case Nil
    with Nil.prems show ?thesis by simp
  next
    case (Cons c' t')
    have "hd (CHR 0x22 # r) = hd (escapeChar c' @ concat (map escapeChar t') @ CHR 0x22 # r')"
      using Nil.prems Cons by simp
    then show ?thesis using escapeChar_hd[of c'] by simp
  qed
next
  case (Cons c t)
  show ?case
  proof (cases s')
    case Nil
    have "hd (escapeChar c @ concat (map escapeChar t) @ CHR 0x22 # r) = hd (CHR 0x22 # r')"
      using Cons.prems Nil by simp
    then show ?thesis using escapeChar_hd[of c] by simp
  next
    case (Cons c' t')
    have "escapeChar c @ (concat (map escapeChar t) @ CHR 0x22 # r) =
          escapeChar c' @ (concat (map escapeChar t') @ CHR 0x22 # r')"
      using Cons.prems Cons by simp
    then have "c = c'" and
      "concat (map escapeChar t) @ CHR 0x22 # r = concat (map escapeChar t') @ CHR 0x22 # r'"
      using escapeChar_split by blast+
    then show ?thesis using Cons.IH Cons by simp
  qed
qed

lemma quoteJsonString_split:
  assumes "quoteJsonString s @ r = quoteJsonString s' @ r'"
  shows "s = s' \<and> r = r'"
  using assms escaped_split[of s r s' r'] by (simp add: quoteJsonString_def)

lemma quoteJsonString_hd: "quoteJsonString s \<noteq> [] \<and> hd (quoteJsonString s) = CHR 0x22"
  by (simp add: quoteJsonString_def)

subsection \<open>Values\<close>

text \<open>What may follow a value: nothing, a comma, or a closing bracket or brace.\<close>

definition valueEnd :: "string \<Rightarrow> bool" where
  "valueEnd r = (case r of [] \<Rightarrow> True | c # _ \<Rightarrow> c = CHR '','' \<or> c = CHR '']'' \<or> c = CHR ''}'')"

lemma valueEnd_noDigitAhead: "valueEnd r \<Longrightarrow> noDigitAhead r"
  by (auto simp: valueEnd_def noDigitAhead_def isDigit_def split: list.splits)

text \<open>The first character of a serialized value tells its constructor.\<close>

definition charKind :: "char \<Rightarrow> nat" where
  "charKind c =
     (if c = CHR ''n'' then 0
      else if c = CHR ''t'' \<or> c = CHR ''f'' then 1
      else if isDigit c \<or> c = CHR ''-'' then 2
      else if c = CHR 0x22 then 3
      else if c = CHR ''['' then 4
      else if c = CHR ''{'' then 5
      else 6)"

fun valueKind :: "JsonValue \<Rightarrow> nat" where
  "valueKind JsonNull = 0"
| "valueKind (JsonBoolean b) = 1"
| "valueKind (JsonNumber n) = 2"
| "valueKind (JsonSpecialNumber n) = (if n = MinusZero then 2 else 0)"
| "valueKind (JsonString s) = 3"
| "valueKind (JsonArray items) = 4"
| "valueKind (JsonObject entries) = 5"

lemma stringOfInt_hd:
  "stringOfInt n \<noteq> [] \<and> (isDigit (hd (stringOfInt n)) \<or> hd (stringOfInt n) = CHR ''-'')"
  using stringOfNat_digits stringOfNat_hd by (simp add: stringOfInt_def)

lemma isDigit_kind: "isDigit c \<Longrightarrow> charKind c = 2"
  by (auto simp: charKind_def isDigit_def)

lemma jsonStringify_hd:
  "jsonStringify v \<noteq> [] \<and> charKind (hd (jsonStringify v)) = valueKind v"
proof (cases v)
  case (JsonNumber n)
  then show ?thesis using stringOfInt_hd[of n] isDigit_kind[of "hd (stringOfInt n)"]
    by (auto simp: charKind_def)
next
  case (JsonString s)
  then show ?thesis using quoteJsonString_hd[of s] by (simp add: charKind_def isDigit_def)
qed (simp_all add: charKind_def isDigit_def)

lemma jsonStringify_kind:
  assumes "jsonStringify v @ r = jsonStringify w @ r'"
  shows "valueKind v = valueKind w"
proof -
  have "hd (jsonStringify v @ r) = hd (jsonStringify w @ r')" by (simp only: assms)
  then have "hd (jsonStringify v) = hd (jsonStringify w)"
    using jsonStringify_hd[of v] jsonStringify_hd[of w] by simp
  then show ?thesis using jsonStringify_hd[of v] jsonStringify_hd[of w] by metis
qed


lemma joinWith_Cons: "joinWith sep (x # xs) = x @ concat (map (\<lambda>y. sep @ y) xs)"
  by (induction xs arbitrary: x) simp_all

text \<open>The items after the first one, each behind its comma.\<close>

definition itemsTail :: "('a \<Rightarrow> string) \<Rightarrow> 'a list \<Rightarrow> string" where
  "itemsTail g xs = concat (map (\<lambda>y. '','' @ g y) xs)"

lemma itemsTail_Nil: "itemsTail g [] = []"
  by (simp add: itemsTail_def)

lemma itemsTail_Cons: "itemsTail g (x # xs) = CHR '','' # g x @ itemsTail g xs"
  by (simp add: itemsTail_def)

lemma joinWith_map_Nil: "joinWith '','' (map g []) = []"
  by simp

lemma joinWith_map_Cons: "joinWith '','' (map g (x # xs)) = g x @ itemsTail g xs"
  by (simp add: joinWith_Cons itemsTail_def comp_def)

lemma valueEnd_itemsTail:
  assumes "close = CHR '']'' \<or> close = CHR ''}''"
  shows "valueEnd (itemsTail g t @ close # r)"
  using assms by (cases t) (auto simp: valueEnd_def itemsTail_Nil itemsTail_Cons)

lemma items_tail_split:
  fixes g :: "'a \<Rightarrow> string"
  assumes P: "\<forall>x \<in> set xs. \<forall>y \<in> set ys. \<forall>R R'.
                valueEnd R \<longrightarrow> valueEnd R' \<longrightarrow> g x @ R = g y @ R' \<longrightarrow> x = y \<and> R = R'"
    and close: "close = CHR '']'' \<or> close = CHR ''}''"
    and eq: "itemsTail g xs @ close # r = itemsTail g ys @ close # r'"
  shows "xs = ys \<and> r = r'"
  using P eq
proof (induction xs arbitrary: ys)
  case Nil
  then show ?case using close by (cases ys) (auto simp: itemsTail_Nil itemsTail_Cons)
next
  case (Cons x t)
  show ?case
  proof (cases ys)
    case Nil
    then show ?thesis using Cons.prems(2) close by (auto simp: itemsTail_Nil itemsTail_Cons)
  next
    case (Cons y t')
    let ?R = "itemsTail g t @ close # r"
    let ?R' = "itemsTail g t' @ close # r'"
    have ends: "valueEnd ?R" "valueEnd ?R'"
      using close by (simp_all add: valueEnd_itemsTail)
    have "g x @ ?R = g y @ ?R'" using Cons.prems(2) Cons by (simp add: itemsTail_Cons)
    then have "x = y \<and> ?R = ?R'" using Cons.prems(1) ends Cons by simp
    then show ?thesis using Cons.IH[of t'] Cons.prems(1) Cons by simp
  qed
qed

lemma items_split:
  fixes g :: "'a \<Rightarrow> string"
  assumes P: "\<forall>x \<in> set xs. \<forall>y \<in> set ys. \<forall>R R'.
                valueEnd R \<longrightarrow> valueEnd R' \<longrightarrow> g x @ R = g y @ R' \<longrightarrow> x = y \<and> R = R'"
    and close: "close = CHR '']'' \<or> close = CHR ''}''"
    and hd: "\<forall>x. g x \<noteq> [] \<and> hd (g x) \<noteq> close"
    and eq: "joinWith '','' (map g xs) @ close # r = joinWith '','' (map g ys) @ close # r'"
  shows "xs = ys \<and> r = r'"
proof (cases xs)
  case Nil
  show ?thesis
  proof (cases ys)
    case Nil
    with \<open>xs = []\<close> eq show ?thesis by simp
  next
    case (Cons y t')
    have "close # r = g y @ itemsTail g t' @ close # r'"
      using eq unfolding \<open>xs = []\<close> Cons joinWith_map_Cons joinWith_map_Nil by simp
    then have "hd (close # r) = hd (g y @ itemsTail g t' @ close # r')" by (rule arg_cong)
    moreover have "g y \<noteq> []" and ne: "hd (g y) \<noteq> close" using hd by simp_all
    ultimately have "close = hd (g y)" by simp
    then show ?thesis using ne by simp
  qed
next
  case (Cons x t)
  show ?thesis
  proof (cases ys)
    case Nil
    have "g x @ itemsTail g t @ close # r = close # r'"
      using eq unfolding Cons Nil joinWith_map_Cons joinWith_map_Nil by simp
    then have "hd (g x @ itemsTail g t @ close # r) = hd (close # r')" by (rule arg_cong)
    moreover have "g x \<noteq> []" and ne: "hd (g x) \<noteq> close" using hd by simp_all
    ultimately have "hd (g x) = close" by simp
    then show ?thesis using ne by simp
  next
    case (Cons y t')
    let ?R = "itemsTail g t @ close # r"
    let ?R' = "itemsTail g t' @ close # r'"
    have ends: "valueEnd ?R" "valueEnd ?R'"
      using close by (simp_all add: valueEnd_itemsTail)
    have "g x @ ?R = g y @ ?R'"
      using eq unfolding \<open>xs = x # t\<close> Cons joinWith_map_Cons by simp
    then have xy: "x = y \<and> ?R = ?R'" using P ends \<open>xs = x # t\<close> Cons by simp
    then have "t = t' \<and> r = r'"
      using items_tail_split[of t t' g close r r'] P close \<open>xs = x # t\<close> Cons by simp
    then show ?thesis using xy \<open>xs = x # t\<close> Cons by simp
  qed
qed

lemma jsonStringify_split:
  "plainJsonNumbers v \<Longrightarrow> plainJsonNumbers w \<Longrightarrow> valueEnd r \<Longrightarrow> valueEnd r' \<Longrightarrow>
   jsonStringify v @ r = jsonStringify w @ r' \<Longrightarrow> v = w \<and> r = r'"
proof (induction v arbitrary: w r r')
  case JsonNull
  then show ?case using jsonStringify_kind[OF JsonNull(5)] by (cases w) simp_all
next
  case (JsonBoolean b)
  then show ?case using jsonStringify_kind[OF JsonBoolean(5)]
    by (cases w) (auto split: if_splits)
next
  case (JsonNumber n)
  then show ?case using jsonStringify_kind[OF JsonNumber(5)]
    by (cases w) (auto dest: stringOfInt_split[OF valueEnd_noDigitAhead valueEnd_noDigitAhead])
next
  case (JsonSpecialNumber n)
  then show ?case by simp
next
  case (JsonString s)
  then show ?case using jsonStringify_kind[OF JsonString(5)]
    by (cases w) (auto dest: quoteJsonString_split)
next
  case (JsonArray items)
  from jsonStringify_kind[OF JsonArray(6)] JsonArray(3) obtain items'
    where w: "w = JsonArray items'"
    by (cases w) simp_all
  have plain: "\<forall>x \<in> set items. plainJsonNumbers x" "\<forall>y \<in> set items'. plainJsonNumbers y"
    using JsonArray(2,3) w by simp_all
  have P: "\<forall>x \<in> set items. \<forall>y \<in> set items'. \<forall>R R'. valueEnd R \<longrightarrow> valueEnd R' \<longrightarrow>
             jsonStringify x @ R = jsonStringify y @ R' \<longrightarrow> x = y \<and> R = R'"
    using JsonArray.IH plain by blast
  have hd: "\<forall>x. jsonStringify x \<noteq> [] \<and> hd (jsonStringify x) \<noteq> CHR '']''"
  proof
    fix x
    have "charKind (hd (jsonStringify x)) \<noteq> charKind CHR '']''"
      using jsonStringify_hd[of x] by (cases x) (simp_all add: charKind_def isDigit_def)
    then show "jsonStringify x \<noteq> [] \<and> hd (jsonStringify x) \<noteq> CHR '']''"
      using jsonStringify_hd[of x] by auto
  qed
  have "joinWith '','' (map jsonStringify items) @ CHR '']'' # r =
        joinWith '','' (map jsonStringify items') @ CHR '']'' # r'"
    using JsonArray(6) w by simp
  then have "items = items' \<and> r = r'"
    using items_split[of items items' jsonStringify "CHR '']''" r r'] P hd by simp
  then show ?case using w by simp
next
  case (JsonObject entries)
  from jsonStringify_kind[OF JsonObject(6)] JsonObject(3) obtain entries'
    where w: "w = JsonObject entries'"
    by (cases w) simp_all
  have plain: "\<forall>x \<in> set entries. plainJsonNumbers (snd x)"
    "\<forall>y \<in> set entries'. plainJsonNumbers (snd y)"
    using JsonObject(2,3) w by simp_all
  let ?g = "\<lambda>entry. quoteJsonString (fst entry) @ '':'' @ jsonStringify (snd entry)"
  have P: "\<forall>x \<in> set entries. \<forall>y \<in> set entries'. \<forall>R R'. valueEnd R \<longrightarrow> valueEnd R' \<longrightarrow>
             ?g x @ R = ?g y @ R' \<longrightarrow> x = y \<and> R = R'"
  proof (intro ballI allI impI)
    fix x y :: "string \<times> JsonValue" and R R'
    assume x: "x \<in> set entries" and y: "y \<in> set entries'"
      and ends: "valueEnd R" "valueEnd R'" and eq: "?g x @ R = ?g y @ R'"
    have "quoteJsonString (fst x) @ ('':'' @ jsonStringify (snd x) @ R) =
          quoteJsonString (fst y) @ ('':'' @ jsonStringify (snd y) @ R')"
      using eq by simp
    then have k: "fst x = fst y"
      and rest: "'':'' @ jsonStringify (snd x) @ R = '':'' @ jsonStringify (snd y) @ R'"
      using quoteJsonString_split by blast+
    have px: "plainJsonNumbers (snd x)" and py: "plainJsonNumbers (snd y)"
      using plain x y by simp_all
    have "snd x \<in> Basic_BNFs.snds x" by (cases x) simp
    then have "snd x = snd y \<and> R = R'"
      using JsonObject.IH[OF x _ px py ends] rest by simp
    then show "x = y \<and> R = R'" using k by (simp add: prod_eq_iff)
  qed
  have hd: "\<forall>x :: string \<times> JsonValue. ?g x \<noteq> [] \<and> hd (?g x) \<noteq> CHR ''}''"
    using quoteJsonString_hd by simp
  have "joinWith '','' (map ?g entries) @ CHR ''}'' # r =
        joinWith '','' (map ?g entries') @ CHR ''}'' # r'"
    using JsonObject(6) w by simp
  then have "entries = entries' \<and> r = r'"
    using items_split[of entries entries' ?g "CHR ''}''" r r'] P hd by simp
  then show ?case using w by simp
qed

lemma jsonStringify_inj:
  "plainJsonNumbers v \<Longrightarrow> plainJsonNumbers w \<Longrightarrow> jsonStringify v = jsonStringify w \<Longrightarrow> v = w"
  using jsonStringify_split[of v w "[]" "[]"] by (simp add: valueEnd_def)

text \<open>The canonical form of a value with plain numbers has plain numbers.\<close>

lemma getProperty_member:
  "key \<in> fst ` set entries \<Longrightarrow> getProperty entries key \<in> snd ` set entries"
proof (induction entries)
  case (Cons e entries)
  show ?case
  proof (cases "fst e = key")
    case True
    then show ?thesis by (cases e) simp
  next
    case False
    then have "key \<in> fst ` set entries" using Cons.prems by auto
    then show ?thesis using Cons.IH False by (cases e) auto
  qed
qed simp

lemma plainJsonNumbers_objectFromEntries:
  "plainJsonNumbers (objectFromEntries entries) = (\<forall>entry \<in> set entries. plainJsonNumbers (snd entry))"
  by (auto simp: objectFromEntries_def)

lemma plainNumbers_sortJsonValue:
  "plainNumbers v \<Longrightarrow> plainJsonNumbers (sortJsonValue v)"
proof (induction v rule: sortJsonValue.induct)
  case (5 entries)
  have "plainJsonNumbers (sortJsonValue (getProperty entries key))"
    if key: "key \<in> set (sort (map fst entries))" for key
  proof -
    have "getProperty entries key \<in> snd ` set entries"
      using key by (intro getProperty_member) simp
    then have "plainNumbers (getProperty entries key)" using "5.prems" by auto
    then show ?thesis using "5.IH"[OF key] by simp
  qed
  then show ?case
    by (simp add: plainJsonNumbers_objectFromEntries del: set_sort)
qed simp_all

section \<open>The schema hash\<close>

lemma insort_key_cong_order:
  assumes "\<forall>y \<in> set ys. (f x \<le> f y) = (g x \<le> g y)"
  shows "insort_key f x ys = insort_key g x ys"
  using assms by (induction ys) auto

lemma sort_key_cong_order:
  fixes f g :: "'a \<Rightarrow> int"
  assumes "\<forall>x \<in> set xs. \<forall>y \<in> set xs. (f x \<le> f y) = (g x \<le> g y)"
  shows "sort_key f xs = sort_key g xs"
  using assms
proof (induction xs)
  case Nil
  show ?case by simp
next
  case (Cons x xs)
  have IH: "sort_key f xs = sort_key g xs" using Cons by simp
  have "insort_key f x (sort_key g xs) = insort_key g x (sort_key g xs)"
    by (rule insort_key_cong_order) (use Cons.prems in simp)
  then show ?case by (simp add: IH)
qed

lemma map_insort_key:
  "map h (insort_key (\<lambda>a. f (h a)) x ys) = insort_key f (h x) (map h ys)"
  by (induction ys) auto

lemma map_sort_key:
  "map h (sort_key (\<lambda>a. f (h a)) xs) = sort_key f (map h xs)"
  by (induction xs) (simp_all add: map_insort_key)

lemma canonicalSchema_zip:
  assumes "length cs' = length cs"
  shows "canonicalSchema cs =
           map (\<lambda>p. canonicalColumn (fst p)) (sort_key (\<lambda>p. ordinalPosition (fst p)) (zip cs cs'))"
    and "canonicalSchema cs' =
           map (\<lambda>p. canonicalColumn (snd p)) (sort_key (\<lambda>p. ordinalPosition (snd p)) (zip cs cs'))"
proof -
  have fst_zip: "map fst (zip cs cs') = cs" and snd_zip: "map snd (zip cs cs') = cs'"
    using assms by simp_all
  have "map canonicalColumn (sort_key ordinalPosition (map fst (zip cs cs'))) =
        map (\<lambda>p. canonicalColumn (fst p)) (sort_key (\<lambda>p. ordinalPosition (fst p)) (zip cs cs'))"
    unfolding map_sort_key [symmetric] by (simp add: comp_def)
  then show "canonicalSchema cs =
           map (\<lambda>p. canonicalColumn (fst p)) (sort_key (\<lambda>p. ordinalPosition (fst p)) (zip cs cs'))"
    unfolding canonicalSchema_def fst_zip .
  have "map canonicalColumn (sort_key ordinalPosition (map snd (zip cs cs'))) =
        map (\<lambda>p. canonicalColumn (snd p)) (sort_key (\<lambda>p. ordinalPosition (snd p)) (zip cs cs'))"
    unfolding map_sort_key [symmetric] by (simp add: comp_def)
  then show "canonicalSchema cs' =
           map (\<lambda>p. canonicalColumn (snd p)) (sort_key (\<lambda>p. ordinalPosition (snd p)) (zip cs cs'))"
    unfolding canonicalSchema_def snd_zip .
qed

lemma canonicalColumn_eq_iff:
  "canonicalColumn c = canonicalColumn c' \<longleftrightarrow>
     columnName c = columnName c' \<and> dataType c = dataType c' \<and> isNullable c = isNullable c' \<and>
     columnDefault c = columnDefault c' \<and> pkPosition c = pkPosition c'"
  by (auto simp: canonicalColumn_def split: option.splits)

lemma canonicalSchema_renumber:
  assumes len: "length cs' = length cs"
    and same: "\<forall>i < length cs. canonicalColumn (cs' ! i) = canonicalColumn (cs ! i)"
    and order: "\<forall>i < length cs. \<forall>j < length cs.
       (ordinalPosition (cs ! i) \<le> ordinalPosition (cs ! j)) =
       (ordinalPosition (cs' ! i) \<le> ordinalPosition (cs' ! j))"
  shows "canonicalSchema cs' = canonicalSchema cs"
proof -
  let ?zs = "zip cs cs'"
  have sorted_eq: "sort_key (\<lambda>p. ordinalPosition (fst p)) ?zs = sort_key (\<lambda>p. ordinalPosition (snd p)) ?zs"
  proof (rule sort_key_cong_order, intro ballI)
    fix p q assume "p \<in> set ?zs" "q \<in> set ?zs"
    then obtain i j where "i < length cs" "j < length cs"
      "p = (cs ! i, cs' ! i)" "q = (cs ! j, cs' ! j)"
      using len by (auto simp: in_set_zip)
    then show "(ordinalPosition (fst p) \<le> ordinalPosition (fst q)) =
               (ordinalPosition (snd p) \<le> ordinalPosition (snd q))"
      using order by simp
  qed
  have pointwise: "\<forall>p \<in> set (sort_key (\<lambda>p. ordinalPosition (snd p)) ?zs).
      canonicalColumn (snd p) = canonicalColumn (fst p)"
  proof
    fix p assume "p \<in> set (sort_key (\<lambda>p. ordinalPosition (snd p)) ?zs)"
    then have "p \<in> set ?zs" by simp
    then obtain i where "i < length cs" "p = (cs ! i, cs' ! i)"
      using len by (auto simp: in_set_zip)
    then show "canonicalColumn (snd p) = canonicalColumn (fst p)"
      using same by simp
  qed
  show ?thesis
    unfolding canonicalSchema_zip[OF len] sorted_eq
    using pointwise by (intro map_cong refl) blast
qed

lemma canonicalSchema_sensitive:
  assumes i: "i < length cs"
    and ord: "ordinalPosition c' = ordinalPosition (cs ! i)"
    and diff: "canonicalColumn c' \<noteq> canonicalColumn (cs ! i)"
  shows "canonicalSchema (cs[i := c']) \<noteq> canonicalSchema cs"
proof -
  let ?cs' = "cs[i := c']"
  let ?zs = "zip cs ?cs'"
  have len: "length ?cs' = length cs" by simp
  have key_eq: "\<forall>p \<in> set ?zs. ordinalPosition (fst p) = ordinalPosition (snd p)"
  proof
    fix p assume "p \<in> set ?zs"
    then obtain j where "j < length cs" "p = (cs ! j, ?cs' ! j)"
      by (auto simp: in_set_zip)
    then show "ordinalPosition (fst p) = ordinalPosition (snd p)"
      using ord by (cases "j = i") simp_all
  qed
  have sorted_eq: "sort_key (\<lambda>p. ordinalPosition (fst p)) ?zs = sort_key (\<lambda>p. ordinalPosition (snd p)) ?zs"
    by (rule sort_key_cong_order) (use key_eq in simp)
  let ?ws = "sort_key (\<lambda>p. ordinalPosition (snd p)) ?zs"
  have "(cs ! i, c') \<in> set ?zs"
    using i by (auto simp: in_set_zip intro!: exI[of _ i])
  then have "(cs ! i, c') \<in> set ?ws" by simp
  then obtain j where j: "j < length ?ws" "?ws ! j = (cs ! i, c')"
    by (metis in_set_conv_nth)
  have "canonicalSchema cs ! j = canonicalColumn (cs ! i)"
    unfolding canonicalSchema_zip(1)[OF len] sorted_eq using j by simp
  moreover have "canonicalSchema ?cs' ! j = canonicalColumn c'"
    unfolding canonicalSchema_zip(2)[OF len] using j by simp
  ultimately show ?thesis using diff by metis
qed

lemma canonical_keys_sorted:
  "sort [''column_name'', ''data_type'', ''is_nullable'', ''column_default'', ''pk_position''] =
     [''column_default'', ''column_name'', ''data_type'', ''is_nullable'', ''pk_position'']"
  by simp

lemma canonical_keys_no_index:
  "arrayIndex ''column_default'' = None" "arrayIndex ''column_name'' = None"
  "arrayIndex ''data_type'' = None" "arrayIndex ''is_nullable'' = None"
  "arrayIndex ''pk_position'' = None"
  by (simp_all add: arrayIndex_def isDigit_def)


lemma sortJsonValue_canonicalColumn:
  "sortJsonValue (canonicalColumn c) =
     JsonObject
       [(''column_default'', sortJsonValue (case columnDefault c of None \<Rightarrow> JNull | Some d \<Rightarrow> JString d)),
        (''column_name'', JsonString (columnName c)),
        (''data_type'', JsonString (dataType c)),
        (''is_nullable'', JsonBoolean (isNullable c)),
        (''pk_position'', sortJsonValue (case pkPosition c of None \<Rightarrow> JNull | Some p \<Rightarrow> JNumber p))]"
  unfolding canonicalColumn_def sortJsonValue.simps list.map fst_conv canonical_keys_sorted
  by (simp add: objectFromEntries_def canonical_keys_no_index)

lemma stableStringify_eq_iff:
  assumes "plainNumbers v" "plainNumbers w"
  shows "stableStringify v = stableStringify w \<longleftrightarrow> sortJsonValue v = sortJsonValue w"
  unfolding stableStringify_def
  using jsonStringify_inj[OF plainNumbers_sortJsonValue[OF assms(1)] plainNumbers_sortJsonValue[OF assms(2)]]
  by auto

lemma plainNumbers_canonicalSchema: "plainNumbers (JArray (canonicalSchema cs))"
  by (auto simp: canonicalSchema_def canonicalColumn_def split: option.splits)

lemma sortJsonValue_canonicalColumn_inj:
  assumes "sortJsonValue (canonicalColumn c) = sortJsonValue (canonicalColumn c')"
  shows "canonicalColumn c = canonicalColumn c'"
proof -
  have eq: "[(''column_default'', sortJsonValue (case columnDefault c of None \<Rightarrow> JNull | Some d \<Rightarrow> JString d)),
        (''column_name'', JsonString (columnName c)),
        (''data_type'', JsonString (dataType c)),
        (''is_nullable'', JsonBoolean (isNullable c)),
        (''pk_position'', sortJsonValue (case pkPosition c of None \<Rightarrow> JNull | Some p \<Rightarrow> JNumber p))] =
      [(''column_default'', sortJsonValue (case columnDefault c' of None \<Rightarrow> JNull | Some d \<Rightarrow> JString d)),
        (''column_name'', JsonString (columnName c')),
        (''data_type'', JsonString (dataType c')),
        (''is_nullable'', JsonBoolean (isNullable c')),
        (''pk_position'', sortJsonValue (case pkPosition c' of None \<Rightarrow> JNull | Some p \<Rightarrow> JNumber p))]"
    using assms unfolding sortJsonValue_canonicalColumn by (simp only: JsonValue.inject)
  have d: "sortJsonValue (case columnDefault c of None \<Rightarrow> JNull | Some d \<Rightarrow> JString d) =
           sortJsonValue (case columnDefault c' of None \<Rightarrow> JNull | Some d \<Rightarrow> JString d)"
    and n: "columnName c = columnName c'" and t: "dataType c = dataType c'"
    and nu: "isNullable c = isNullable c'"
    and p: "sortJsonValue (case pkPosition c of None \<Rightarrow> JNull | Some p \<Rightarrow> JNumber p) =
            sortJsonValue (case pkPosition c' of None \<Rightarrow> JNull | Some p \<Rightarrow> JNumber p)"
    using eq by (simp_all only: list.inject prod.inject JsonValue.inject)
  have "columnDefault c = columnDefault c'"
    using d by (cases "columnDefault c"; cases "columnDefault c'") simp_all
  moreover have "pkPosition c = pkPosition c'"
    using p by (cases "pkPosition c"; cases "pkPosition c'") simp_all
  ultimately show ?thesis
    using n t nu by (simp only: canonicalColumn_eq_iff)
qed

lemma canonicalSchema_strings:
  assumes "stableStringify (JArray (canonicalSchema cs')) = stableStringify (JArray (canonicalSchema cs))"
  shows "canonicalSchema cs' = canonicalSchema cs"
proof -
  let ?A = "sort_key ordinalPosition cs'" and ?B = "sort_key ordinalPosition cs"
  have "map sortJsonValue (map canonicalColumn ?A) = map sortJsonValue (map canonicalColumn ?B)"
    using assms stableStringify_eq_iff[OF plainNumbers_canonicalSchema plainNumbers_canonicalSchema, of cs' cs]
    by (simp add: canonicalSchema_def)
  then have "list_all2 (=) (map sortJsonValue (map canonicalColumn ?A))
               (map sortJsonValue (map canonicalColumn ?B))"
    by (simp only: list.rel_eq)
  then have "list_all2 (\<lambda>c c'. sortJsonValue (canonicalColumn c) = sortJsonValue (canonicalColumn c'))
               ?A ?B"
    by (simp only: list.rel_map)
  then have "list_all2 (\<lambda>c c'. canonicalColumn c = canonicalColumn c') ?A ?B"
    by (rule list_all2_mono) (rule sortJsonValue_canonicalColumn_inj)
  then have "list_all2 (=) (map canonicalColumn ?A) (map canonicalColumn ?B)"
    by (simp only: list.rel_map)
  then show ?thesis
    by (simp only: list.rel_eq canonicalSchema_def)
qed

text \<open>
  C8. \<^verbatim>\<open>computeSchemaHash\<close> is unchanged by a renumbering of the ordinal positions
  that keeps the relative order of the columns (position by position, the five projected
  fields are the same and the comparisons of ordinals agree): the ordinal is the sort key
  only. Replacing one column by a column with the same ordinal whose data type,
  nullability, default or pk-position differs changes the canonical projected array, and
  with it the canonical string that is hashed; so the hash changes for every hash function
  that does not collide.
\<close>

theorem computeSchemaHash_renumbering_and_sensitivity:
  "(length cs' = length cs \<and>
    (\<forall>i < length cs.
       columnName (cs' ! i) = columnName (cs ! i) \<and> dataType (cs' ! i) = dataType (cs ! i) \<and>
       isNullable (cs' ! i) = isNullable (cs ! i) \<and>
       columnDefault (cs' ! i) = columnDefault (cs ! i) \<and>
       pkPosition (cs' ! i) = pkPosition (cs ! i)) \<and>
    (\<forall>i < length cs. \<forall>j < length cs.
       (ordinalPosition (cs ! i) \<le> ordinalPosition (cs ! j)) =
       (ordinalPosition (cs' ! i) \<le> ordinalPosition (cs' ! j))) \<longrightarrow>
      computeSchemaHash sha256Hex cs' = computeSchemaHash sha256Hex cs) \<and>
   (k < length cs \<and> ordinalPosition c = ordinalPosition (cs ! k) \<and>
    (dataType c \<noteq> dataType (cs ! k) \<or> isNullable c \<noteq> isNullable (cs ! k) \<or>
     columnDefault c \<noteq> columnDefault (cs ! k) \<or> pkPosition c \<noteq> pkPosition (cs ! k)) \<longrightarrow>
      canonicalSchema (cs[k := c]) \<noteq> canonicalSchema cs \<and>
      stableStringify (JArray (canonicalSchema (cs[k := c]))) \<noteq>
        stableStringify (JArray (canonicalSchema cs)) \<and>
      (inj sha256Hex \<longrightarrow> computeSchemaHash sha256Hex (cs[k := c]) \<noteq> computeSchemaHash sha256Hex cs))"
proof (intro conjI impI)
  assume a: "length cs' = length cs \<and>
    (\<forall>i < length cs.
       columnName (cs' ! i) = columnName (cs ! i) \<and> dataType (cs' ! i) = dataType (cs ! i) \<and>
       isNullable (cs' ! i) = isNullable (cs ! i) \<and>
       columnDefault (cs' ! i) = columnDefault (cs ! i) \<and>
       pkPosition (cs' ! i) = pkPosition (cs ! i)) \<and>
    (\<forall>i < length cs. \<forall>j < length cs.
       (ordinalPosition (cs ! i) \<le> ordinalPosition (cs ! j)) =
       (ordinalPosition (cs' ! i) \<le> ordinalPosition (cs' ! j)))"
  then have "\<forall>i < length cs. canonicalColumn (cs' ! i) = canonicalColumn (cs ! i)"
    by (simp add: canonicalColumn_eq_iff)
  with a have "canonicalSchema cs' = canonicalSchema cs"
    by (intro canonicalSchema_renumber) simp_all
  then show "computeSchemaHash sha256Hex cs' = computeSchemaHash sha256Hex cs"
    by (simp add: computeSchemaHash_def)
next
  assume b: "k < length cs \<and> ordinalPosition c = ordinalPosition (cs ! k) \<and>
    (dataType c \<noteq> dataType (cs ! k) \<or> isNullable c \<noteq> isNullable (cs ! k) \<or>
     columnDefault c \<noteq> columnDefault (cs ! k) \<or> pkPosition c \<noteq> pkPosition (cs ! k))"
  then have "canonicalColumn c \<noteq> canonicalColumn (cs ! k)"
    by (auto simp: canonicalColumn_eq_iff)
  with b have arrays: "canonicalSchema (cs[k := c]) \<noteq> canonicalSchema cs"
    by (intro canonicalSchema_sensitive) simp_all
  then show "canonicalSchema (cs[k := c]) \<noteq> canonicalSchema cs" .
  from arrays show strings: "stableStringify (JArray (canonicalSchema (cs[k := c]))) \<noteq>
        stableStringify (JArray (canonicalSchema cs))"
    using canonicalSchema_strings by blast
  assume "inj sha256Hex"
  then show "computeSchemaHash sha256Hex (cs[k := c]) \<noteq> computeSchemaHash sha256Hex cs"
    using strings by (simp add: computeSchemaHash_def inj_eq)
qed

theorem computeSchemaHash_renumbering_and_sensitivity_witness:
  "computeSchemaHash id renumberedColumns = computeSchemaHash id baseColumns \<and>
   canonicalSchema (baseColumns[0 := changedColumn]) \<noteq> canonicalSchema baseColumns \<and>
   computeSchemaHash id (baseColumns[0 := changedColumn]) \<noteq> computeSchemaHash id baseColumns"
proof -
  show ?thesis
    using computeSchemaHash_renumbering_and_sensitivity
            [of renumberedColumns baseColumns id 0 changedColumn]
    by (simp add: baseColumns_def renumberedColumns_def changedColumn_def All_less_Suc)
qed

section \<open>The document id\<close>

text \<open>
  C9, as stated, fails for the primary key: the keys \<^verbatim>\<open>{id: 5n}\<close> (a bigint) and
  \<^verbatim>\<open>{id: "5"}\<close> (a string) differ, but have the same canonical string, so the hashed
  strings are equal (with the identity in the place of the hash, \<open>buildDocId\<close> is the
  hashed string) and the ids are the same.
\<close>

theorem buildDocId_same_canonical_key_counterexample:
  "[(''id'', JBigInt 5)] \<noteq> [(''id'', JString ''5'')] \<and>
   buildDocId id ''public'' ''users'' [(''id'', JBigInt 5)] =
   buildDocId id ''public'' ''users'' [(''id'', JString ''5'')]"
  by (simp add: buildDocId_def stableStringify_def stringOfInt_def stringOfNat.simps digitChar_def)

text \<open>
  The text of a key with one column depends on the value of the column through
  \<^verbatim>\<open>JSON.stringify\<close> only.
\<close>

lemma stableStringify_single_column:
  assumes "jsonStringify (sortJsonValue v) = jsonStringify (sortJsonValue w)"
  shows "stableStringify (JObject [(column, v)]) = stableStringify (JObject [(column, w)])"
  using assms by (simp add: stableStringify_def objectFromEntries_def)

text \<open>
  C9, amended. Two calls of \<^verbatim>\<open>buildDocId\<close> with the same schema and table and with
  primary keys equal up to object key order return the same id. Varying the schema alone,
  or the table alone, changes the hashed string. Varying the primary key changes the
  hashed string exactly when the canonical JSON text of the key (\<^verbatim>\<open>stableStringify\<close>)
  changes. When no number in the two keys is \<^verbatim>\<open>NaN\<close>, an infinity or negative zero, that
  is exactly when the canonical form of the key changes (\<^verbatim>\<open>sortJsonValue\<close>: keys sorted,
  undefined as null, a date as its ISO string, a bigint as its decimal string). For a
  column of the key, \<^verbatim>\<open>NaN\<close>, \<^verbatim>\<open>Infinity\<close>, \<^verbatim>\<open>-Infinity\<close> and \<^verbatim>\<open>null\<close> give the same id,
  and so do negative zero and zero, for every schema, table and hash function.
\<close>

theorem buildDocId_idempotency_key:
  "(sameUpToKeyOrder (JObject primaryKey) (JObject primaryKey') \<longrightarrow>
      buildDocId sha256Hex schema table primaryKey = buildDocId sha256Hex schema table primaryKey') \<and>
   (schema \<noteq> schema' \<longrightarrow>
      buildDocId id schema table primaryKey \<noteq> buildDocId id schema' table primaryKey) \<and>
   (table \<noteq> table' \<longrightarrow>
      buildDocId id schema table primaryKey \<noteq> buildDocId id schema table' primaryKey) \<and>
   ((buildDocId id schema table primaryKey = buildDocId id schema table primaryKey') =
    (stableStringify (JObject primaryKey) = stableStringify (JObject primaryKey'))) \<and>
   (plainNumbers (JObject primaryKey) \<and> plainNumbers (JObject primaryKey') \<longrightarrow>
      (buildDocId id schema table primaryKey = buildDocId id schema table primaryKey') =
      (sortJsonValue (JObject primaryKey) = sortJsonValue (JObject primaryKey'))) \<and>
   buildDocId sha256Hex schema table [(column, JSpecialNumber NaN)] =
     buildDocId sha256Hex schema table [(column, JNull)] \<and>
   buildDocId sha256Hex schema table [(column, JSpecialNumber PlusInfinity)] =
     buildDocId sha256Hex schema table [(column, JNull)] \<and>
   buildDocId sha256Hex schema table [(column, JSpecialNumber MinusInfinity)] =
     buildDocId sha256Hex schema table [(column, JNull)] \<and>
   buildDocId sha256Hex schema table [(column, JSpecialNumber MinusZero)] =
     buildDocId sha256Hex schema table [(column, JNumber 0)]"
proof -
  have order: "sameUpToKeyOrder (JObject primaryKey) (JObject primaryKey') \<longrightarrow>
      buildDocId sha256Hex schema table primaryKey = buildDocId sha256Hex schema table primaryKey'"
    using sortJsonValue_key_order[of "JObject primaryKey" "JObject primaryKey'"]
    by (simp add: buildDocId_def stableStringify_def)
  have prefix: "(schema \<noteq> schema' \<longrightarrow>
      buildDocId id schema table primaryKey \<noteq> buildDocId id schema' table primaryKey) \<and>
   (table \<noteq> table' \<longrightarrow>
      buildDocId id schema table primaryKey \<noteq> buildDocId id schema table' primaryKey)"
    by (simp add: buildDocId_def)
  have texts: "(buildDocId id schema table primaryKey = buildDocId id schema table primaryKey') =
    (stableStringify (JObject primaryKey) = stableStringify (JObject primaryKey'))"
    by (simp add: buildDocId_def)
  have form: "plainNumbers (JObject primaryKey) \<and> plainNumbers (JObject primaryKey') \<longrightarrow>
      (buildDocId id schema table primaryKey = buildDocId id schema table primaryKey') =
      (sortJsonValue (JObject primaryKey) = sortJsonValue (JObject primaryKey'))"
    using stableStringify_eq_iff[of "JObject primaryKey" "JObject primaryKey'"]
    unfolding texts by blast
  have special:
    "buildDocId sha256Hex schema table [(column, JSpecialNumber NaN)] =
       buildDocId sha256Hex schema table [(column, JNull)]"
    "buildDocId sha256Hex schema table [(column, JSpecialNumber PlusInfinity)] =
       buildDocId sha256Hex schema table [(column, JNull)]"
    "buildDocId sha256Hex schema table [(column, JSpecialNumber MinusInfinity)] =
       buildDocId sha256Hex schema table [(column, JNull)]"
    "buildDocId sha256Hex schema table [(column, JSpecialNumber MinusZero)] =
       buildDocId sha256Hex schema table [(column, JNumber 0)]"
    unfolding buildDocId_def
    using stableStringify_single_column[of "JSpecialNumber NaN" JNull column]
      stableStringify_single_column[of "JSpecialNumber PlusInfinity" JNull column]
      stableStringify_single_column[of "JSpecialNumber MinusInfinity" JNull column]
      stableStringify_single_column[of "JSpecialNumber MinusZero" "JNumber 0" column]
    by (simp_all only: sortJsonValue.simps jsonStringify_special_numbers)
  show ?thesis
    using order prefix texts form special by blast
qed

theorem buildDocId_idempotency_key_witness:
  "buildDocId id ''public'' ''users'' [(''b'', JNumber 2), (''a'', JNumber 1)] =
     buildDocId id ''public'' ''users'' [(''a'', JNumber 1), (''b'', JNumber 2)] \<and>
   buildDocId id ''public'' ''users'' [(''id'', JNumber 10)] \<noteq>
     buildDocId id ''sales'' ''users'' [(''id'', JNumber 10)] \<and>
   buildDocId id ''public'' ''users'' [(''id'', JNumber 10)] \<noteq>
     buildDocId id ''public'' ''orders'' [(''id'', JNumber 10)] \<and>
   plainNumbers (JObject [(''id'', JNumber 10)]) \<and> plainNumbers (JObject [(''id'', JNumber 11)]) \<and>
   buildDocId id ''public'' ''users'' [(''id'', JNumber 10)] \<noteq>
     buildDocId id ''public'' ''users'' [(''id'', JNumber 11)]"
proof -
  note reordered =
    buildDocId_idempotency_key [of "[(''b'', JNumber 2), (''a'', JNumber 1)]"
      "[(''a'', JNumber 1), (''b'', JNumber 2)]" id "''public''" "''users''" "''public''" "''users''"
      "''id''"]
  note varied =
    buildDocId_idempotency_key [of "[(''id'', JNumber 10)]" "[(''id'', JNumber 11)]" id
      "''public''" "''users''" "''sales''" "''orders''" "''id''"]
  have same: "sameUpToKeyOrder (JObject [(''b'', JNumber 2), (''a'', JNumber 1)])
                (JObject [(''a'', JNumber 1), (''b'', JNumber 2)])"
    by (rule sameUpToKeyOrder.objects) (auto intro: sameUpToKeyOrder.same)
  have names: "''public'' \<noteq> ''sales''" "''users'' \<noteq> ''orders''"
    by simp_all
  have plain: "plainNumbers (JObject [(''id'', JNumber 10)])"
    "plainNumbers (JObject [(''id'', JNumber 11)])"
    by simp_all
  have differ: "sortJsonValue (JObject [(''id'', JNumber 10)]) \<noteq>
                sortJsonValue (JObject [(''id'', JNumber 11)])"
    by (simp add: objectFromEntries_def arrayIndex_def isDigit_def)
  show ?thesis
    using reordered varied same names plain differ by blast
qed

end
